theory Spec2Isabelle
  imports Complex_Main "HOL-Library.AList" "HOL-Library.Multiset"
begin

section \<open>Transportation mode detection: the model\<close>

text \<open>
  The functions below are those of the ``Transportation Mode Detection Algorithms'' part of
  \<^verbatim>\<open>src/js/firestore-browser.js\<close> (lines 475 onwards).

  Numbers. A finite JavaScript number is modelled as a real (no overflow, no signed zero); the
  three non-finite values are kept, because the code reaches them: \<^verbatim>\<open>undefined\<close> converts
  to \<^verbatim>\<open>NaN\<close>, a division by zero yields an infinity, and every comparison with \<^verbatim>\<open>NaN\<close>
  is false.  An optional field of a sample is an \<open>option\<close>, \<open>None\<close> standing for
  \<^verbatim>\<open>undefined\<close>.  Arithmetic is exact, except where a result is turned into an array
  index: there the operations round to double precision (\<open>fl\<close> below), because the rounding
  decides which element is read.
\<close>

subsection \<open>JavaScript numbers\<close>

datatype jsnum = Num real | PInf | NInf | NaN

text \<open>\<^verbatim>\<open>ToNumber\<close> on a field that may be \<^verbatim>\<open>undefined\<close>.\<close>

fun to_num :: "real option \<Rightarrow> jsnum" where
  "to_num None = NaN"
| "to_num (Some x) = Num x"

text \<open>The relational operator \<^verbatim>\<open><\<close>; \<^verbatim>\<open>a > b\<close> is \<open>js_lt b a\<close>.\<close>

fun js_lt :: "jsnum \<Rightarrow> jsnum \<Rightarrow> bool" where
  "js_lt NaN _ = False"
| "js_lt _ NaN = False"
| "js_lt (Num a) (Num b) = (a < b)"
| "js_lt _ NInf = False"
| "js_lt NInf _ = True"
| "js_lt PInf _ = False"
| "js_lt (Num a) PInf = True"

definition js_gt :: "jsnum \<Rightarrow> jsnum \<Rightarrow> bool" where
  "js_gt a b = js_lt b a"

fun js_neg :: "jsnum \<Rightarrow> jsnum" where
  "js_neg (Num a) = Num (- a)"
| "js_neg PInf = NInf"
| "js_neg NInf = PInf"
| "js_neg NaN = NaN"

fun js_add :: "jsnum \<Rightarrow> jsnum \<Rightarrow> jsnum" where
  "js_add NaN _ = NaN"
| "js_add _ NaN = NaN"
| "js_add (Num a) (Num b) = Num (a + b)"
| "js_add PInf NInf = NaN"
| "js_add NInf PInf = NaN"
| "js_add PInf _ = PInf"
| "js_add _ PInf = PInf"
| "js_add NInf _ = NInf"
| "js_add _ NInf = NInf"

definition js_sub :: "jsnum \<Rightarrow> jsnum \<Rightarrow> jsnum" where
  "js_sub a b = js_add a (js_neg b)"

text \<open>The sign of a number that is not \<^verbatim>\<open>NaN\<close>: \<open>-1\<close>, \<open>0\<close> or \<open>1\<close>.\<close>

fun js_sign :: "jsnum \<Rightarrow> int" where
  "js_sign (Num a) = (if a < 0 then - 1 else if a = 0 then 0 else 1)"
| "js_sign PInf = 1"
| "js_sign NInf = - 1"
| "js_sign NaN = 0"

definition signed_inf :: "int \<Rightarrow> jsnum" where
  "signed_inf s = (if s < 0 then NInf else if s = 0 then NaN else PInf)"


fun js_div :: "jsnum \<Rightarrow> jsnum \<Rightarrow> jsnum" where
  "js_div NaN _ = NaN"
| "js_div _ NaN = NaN"
| "js_div (Num a) (Num b) = (if b \<noteq> 0 then Num (a / b) else signed_inf (js_sign (Num a)))"
| "js_div (Num a) _ = Num 0"
| "js_div a (Num b) = signed_inf (js_sign a * (if b < 0 then - 1 else 1))"
| "js_div _ _ = NaN"


text \<open>\<^verbatim>\<open>Math.max(...xs)\<close>: \<^verbatim>\<open>-Infinity\<close> for no argument, \<^verbatim>\<open>NaN\<close> as soon as one
  argument is \<^verbatim>\<open>NaN\<close>.\<close>

definition js_max2 :: "jsnum \<Rightarrow> jsnum \<Rightarrow> jsnum" where
  "js_max2 a b = (if a = NaN \<or> b = NaN then NaN else if js_lt a b then b else a)"

definition Math_max :: "jsnum list \<Rightarrow> jsnum" where
  "Math_max xs = fold (\<lambda>x acc. js_max2 acc x) xs NInf"

text \<open>Reading \<^verbatim>\<open>xs[i]\<close>: \<^verbatim>\<open>undefined\<close> outside the array.\<close>

definition js_index :: "real option list \<Rightarrow> int \<Rightarrow> real option" where
  "js_index xs i = (if 0 \<le> i \<and> i < int (length xs) then xs ! nat i else None)"

text \<open>\<^verbatim>\<open>xs.sort((a, b) => a - b)\<close> on an array of numbers and \<^verbatim>\<open>undefined\<close>s:
  the numbers in ascending order, then the \<^verbatim>\<open>undefined\<close> elements, which
  \<^verbatim>\<open>Array.prototype.sort\<close> moves to the end without calling the comparator.\<close>

definition js_sort :: "real option list \<Rightarrow> real option list" where
  "js_sort xs = map Some (sort (List.map_filter id xs)) @ filter (\<lambda>x. x = None) xs"

text \<open>Rounding to double precision (IEEE 754 binary64, round to nearest, ties to even).
  \<open>rne\<close> rounds a real to the nearest integer, a tie to the even one. A double is an integer
  multiple of a power of two, the quantum \<open>2\<^sup>u\<close>, with \<open>u = e - 52\<close> for a number of binary
  exponent \<open>e\<close> and \<open>u = -1074\<close> in the subnormal range; \<open>fl\<close> rounds to the nearest such
  multiple. Overflow to an infinity (from \<open>2\<^sup>1\<^sup>0\<^sup>2\<^sup>4\<close>) is left out.\<close>

definition rne :: "real \<Rightarrow> int" where
  "rne y = (let f = \<lfloor>y\<rfloor>
            in if y - of_int f < 1 / 2 then f
               else if 1 / 2 < y - of_int f then f + 1
               else if even f then f else f + 1)"

definition fl :: "real \<Rightarrow> real" where
  "fl x = (if x = 0 then 0
           else let e = \<lfloor>log 2 \<bar>x\<bar>\<rfloor>;
                    u = max (e - 52) (- 1074);
                    q = 2 powr (of_int u)
                in of_int (rne (x / q)) * q)"

subsection \<open>Samples\<close>

text \<open>A GPS sample. Every field that the code reads may be left out; a field that is
  present holds a finite number.\<close>

record point =
  timestamp :: "real option"
  latitude :: "real option"
  longitude :: "real option"
  speed :: "real option"
  speedKmh :: "real option"
  heading :: "real option"

subsection \<open>Helper functions\<close>

text \<open>\<^verbatim>\<open>percentile(arr, p)\<close>. The array is copied (\<^verbatim>\<open>[...arr]\<close>) and the copy is
  sorted in place; \<open>percentile_run\<close> returns the caller's array as it is after the call,
  together with the value returned. The quotient \<^verbatim>\<open>p / 100\<close> and its product with the
  length are rounded; the length, the ceiling and the subtraction of 1 are exact.\<close>

definition percentile_run :: "real option list \<Rightarrow> real \<Rightarrow> real option list \<times> real option" where
  "percentile_run arr p =
     (let copy = arr;
          sorted = js_sort copy;
          index = \<lceil>fl (fl (p / 100) * real (length sorted))\<rceil> - 1
      in (arr, js_index sorted (max 0 index)))"

definition percentile :: "real option list \<Rightarrow> real \<Rightarrow> real option" where
  "percentile arr p = snd (percentile_run arr p)"

text \<open>\<^verbatim>\<open>Math.atan2(y, x)\<close> on finite arguments.\<close>

definition atan2 :: "real \<Rightarrow> real \<Rightarrow> real" where
  "atan2 y x =
     (if 0 < x then arctan (y / x)
      else if x < 0 then (if 0 \<le> y then arctan (y / x) + pi else arctan (y / x) - pi)
      else if 0 < y then pi / 2 else if y < 0 then - (pi / 2) else 0)"

text \<open>\<^verbatim>\<open>getDistanceBetweenPoints\<close>, the haversine formula. A coordinate that is missing
  makes every term \<^verbatim>\<open>NaN\<close>, and so the result. \<^verbatim>\<open>Math.sqrt\<close> of a negative number is
  \<^verbatim>\<open>NaN\<close>, which \<^verbatim>\<open>Math.atan2\<close> and the two products hand on: the result is \<^verbatim>\<open>NaN\<close>
  when \<open>a\<close> or \<open>1 - a\<close> is negative, as latitudes beyond the poles can make them.\<close>

definition getDistanceBetweenPoints :: "point \<Rightarrow> point \<Rightarrow> jsnum" where
  "getDistanceBetweenPoints point1 point2 =
     (case (latitude point1, longitude point1, latitude point2, longitude point2) of
        (Some latitude1, Some longitude1, Some latitude2, Some longitude2) \<Rightarrow>
          (let R = 6376377;
               lat1 = (latitude1 * pi) / 180;
               lat2 = (latitude2 * pi) / 180;
               dLat = ((latitude2 - latitude1) * pi) / 180;
               dLng = ((longitude2 - longitude1) * pi) / 180;
               a = sin (dLat / 2) * sin (dLat / 2) +
                   cos lat1 * cos lat2 * sin (dLng / 2) * sin (dLng / 2)
           in if a < 0 \<or> 1 - a < 0 then NaN
              else let c = 2 * atan2 (sqrt a) (sqrt (1 - a)) in Num (R * c))
      | _ \<Rightarrow> NaN)"

text \<open>The two normalisation loops of \<^verbatim>\<open>calculateHeadingChanges\<close>, on reals, where each
  iteration changes the value by a whole turn and the loop ends. On doubles an iteration leaves
  a value of magnitude \<open>2\<^sup>5\<^sup>6\<close> or more as it is (\<^verbatim>\<open>1e17 - 2 * Math.PI\<close> is again
  \<^verbatim>\<open>1e17\<close>) and the loop does not end: the equations describe the program for headings of
  moderate size only. The properties below are stated for headings in \<open>[0, 2\<pi>)\<close>, the range
  of the heading of a sample, where each loop runs at most once.\<close>

function norm_down :: "real \<Rightarrow> real" where
  "norm_down change = (if change > pi then norm_down (change - 2 * pi) else change)"
  by pat_completeness auto
termination
proof (relation "measure (\<lambda>c. nat \<lceil>c / (2 * pi)\<rceil>)")
  show "wf (measure (\<lambda>c. nat \<lceil>c / (2 * pi)\<rceil>))" by simp
next
  fix change :: real
  assume gt: "pi < change"
  have eq: "(change - 2 * pi) / (2 * pi) = change / (2 * pi) - 1"
    by (simp add: diff_divide_distrib)
  have "0 < change" using gt pi_gt_zero by linarith
  then have "0 < change / (2 * pi)" using pi_gt_zero by simp
  then have "1 \<le> \<lceil>change / (2 * pi)\<rceil>" by linarith
  then show "(change - 2 * pi, change) \<in> measure (\<lambda>c. nat \<lceil>c / (2 * pi)\<rceil>)"
    by (simp add: eq)
qed

function norm_up :: "real \<Rightarrow> real" where
  "norm_up change = (if change < - pi then norm_up (change + 2 * pi) else change)"
  by pat_completeness auto
termination
proof (relation "measure (\<lambda>c. nat \<lceil>(- c) / (2 * pi)\<rceil>)")
  show "wf (measure (\<lambda>c. nat \<lceil>(- c) / (2 * pi)\<rceil>))" by simp
next
  fix change :: real
  assume lt: "change < - pi"
  have "(- (change + 2 * pi)) / (2 * pi) = (- change) / (2 * pi) - 1"
    by (simp add: diff_divide_distrib)
  then have eq: "\<lceil>(- (change + 2 * pi)) / (2 * pi)\<rceil> = \<lceil>(- change) / (2 * pi)\<rceil> - 1"
    by (simp only: ceiling_diff_one)
  have "0 < - change" using lt pi_gt_zero by linarith
  then have "0 < (- change) / (2 * pi)" using pi_gt_zero by (simp only: divide_pos_pos mult_pos_pos zero_less_numeral)
  then have "1 \<le> \<lceil>(- change) / (2 * pi)\<rceil>" by linarith
  then have "nat \<lceil>(- (change + 2 * pi)) / (2 * pi)\<rceil> < nat \<lceil>(- change) / (2 * pi)\<rceil>"
    unfolding eq by linarith
  then show "(change + 2 * pi, change) \<in> measure (\<lambda>c. nat \<lceil>(- c) / (2 * pi)\<rceil>)"
    by (simp only: in_measure)
qed

text \<open>One iteration of the loop of \<^verbatim>\<open>calculateHeadingChanges\<close>, for the pair
  \<^verbatim>\<open>points[i - 1]\<close>, \<^verbatim>\<open>points[i]\<close>. With both headings present the difference is
  a finite number, normalised by the two loops. A missing heading makes the difference
  \<^verbatim>\<open>NaN\<close>: both \<^verbatim>\<open>while\<close> conditions are false on it and \<^verbatim>\<open>Math.abs\<close> returns
  \<^verbatim>\<open>NaN\<close>.\<close>

definition headingChange :: "point \<Rightarrow> point \<Rightarrow> jsnum" where
  "headingChange prev cur =
     (case (heading cur, heading prev) of
        (Some h1, Some h0) \<Rightarrow> Num \<bar>norm_up (norm_down (h1 - h0))\<bar>
      | _ \<Rightarrow> NaN)"

definition calculateHeadingChanges :: "point list \<Rightarrow> jsnum list" where
  "calculateHeadingChanges points =
     map (\<lambda>i. headingChange (points ! (i - 1)) (points ! i)) [1..<length points]"

text \<open>\<^verbatim>\<open>findStops(points, speedThreshold = 0.5)\<close>. The speed the loop compares: the
  \<^verbatim>\<open>speed\<close> field (m/s), else \<^verbatim>\<open>speedKmh / 3.6\<close>, else 0.\<close>

definition sampleSpeed :: "point \<Rightarrow> real" where
  "sampleSpeed p =
     (case speed p of
        Some v \<Rightarrow> v
      | None \<Rightarrow> (case speedKmh p of Some k \<Rightarrow> k / 3.6 | None \<Rightarrow> 0))"

record stop =
  startIndex :: int
  endIndex :: int
  duration :: jsnum
  distance :: jsnum

text \<open>The stop pushed when a run that began at \<open>stopStart\<close> is closed with last sample
  \<open>lastIdx\<close>; \<open>after\<close> is the index of the sample the distance is measured to (\<^verbatim>\<open>i\<close> inside
  the loop, \<^verbatim>\<open>lastIndex\<close> after it).\<close>

definition mkStop :: "point list \<Rightarrow> nat \<Rightarrow> nat \<Rightarrow> nat \<Rightarrow> stop" where
  "mkStop points stopStart lastIdx after =
     \<lparr> startIndex = int stopStart,
       endIndex = int lastIdx,
       duration = js_div (js_sub (to_num (timestamp (points ! lastIdx)))
                                 (to_num (timestamp (points ! stopStart)))) (Num 1000),
       distance = (if stopStart > 0
                   then getDistanceBetweenPoints (points ! (stopStart - 1)) (points ! after)
                   else Num 0) \<rparr>"

text \<open>The body of the \<^verbatim>\<open>for\<close> loop, on the state \<open>(stops, stopStart)\<close>; \<open>None\<close> is
  \<^verbatim>\<open>null\<close>. A run is only closed at an index \<open>i\<close> after its start, so \<open>i - 1\<close> is
  the index before \<open>i\<close>.\<close>

definition findStops_step ::
  "point list \<Rightarrow> real \<Rightarrow> nat \<Rightarrow> stop list \<times> nat option \<Rightarrow> stop list \<times> nat option" where
  "findStops_step points speedThreshold i st =
     (case st of (stops, stopStart) \<Rightarrow>
        if sampleSpeed (points ! i) < speedThreshold
        then (case stopStart of None \<Rightarrow> (stops, Some i) | Some s \<Rightarrow> (stops, Some s))
        else (case stopStart of
                Some s \<Rightarrow> (stops @ [mkStop points s (i - 1) i], None)
              | None \<Rightarrow> (stops, None)))"

definition findStops_loop :: "point list \<Rightarrow> real \<Rightarrow> nat \<Rightarrow> stop list \<times> nat option" where
  "findStops_loop points speedThreshold n =
     fold (findStops_step points speedThreshold) [0..<n] ([], None)"

definition findStops :: "point list \<Rightarrow> real \<Rightarrow> stop list" where
  "findStops points speedThreshold =
     (case findStops_loop points speedThreshold (length points) of
        (stops, Some s) \<Rightarrow>
          (let lastIndex = length points - 1 in stops @ [mkStop points s lastIndex lastIndex])
      | (stops, None) \<Rightarrow> stops)"

subsection \<open>Classification algorithms\<close>

text \<open>A trajectory is a list of samples; the \<^verbatim>\<open>!speedData\<close> half of the first test
  (a \<^verbatim>\<open>null\<close> or \<^verbatim>\<open>undefined\<close> argument) has no counterpart for a list.\<close>

definition baselineClassify :: "point list \<Rightarrow> string" where
  "baselineClassify speedData =
     (if length speedData = 0 then ''unknown''
      else
        let speeds = map speedKmh speedData;
            maxSpeed = Math_max (map to_num speeds)
        in if js_lt maxSpeed (Num 7) then ''walking''
           else if js_lt maxSpeed (Num 25) then ''cycling''
           else if js_lt maxSpeed (Num 80) then ''bus-or-car''
           else if js_lt maxSpeed (Num 200) then ''train''
           else ''unknown'')"

definition percentile95Classify :: "point list \<Rightarrow> string" where
  "percentile95Classify speedData =
     (if length speedData = 0 then ''unknown''
      else
        let speeds = map speedKmh speedData;
            p95Speed = to_num (percentile speeds 95)
        in if js_lt p95Speed (Num 7) then ''walking''
           else if js_lt p95Speed (Num 25) then ''cycling''
           else if js_lt p95Speed (Num 80) then ''bus-or-car''
           else if js_lt p95Speed (Num 200) then ''train''
           else ''unknown'')"

text \<open>The loop that adds up the distances between consecutive samples.\<close>

definition totalDistance :: "point list \<Rightarrow> jsnum" where
  "totalDistance gpsData =
     fold (\<lambda>i total. js_add total (getDistanceBetweenPoints (gpsData ! i) (gpsData ! (i + 1))))
       [0..<length gpsData - 1] (Num 0)"

text \<open>\<^verbatim>\<open>stopPatternClassify\<close>; \<open>None\<close> is \<^verbatim>\<open>null\<close>.\<close>

definition stopPatternClassify :: "point list \<Rightarrow> string option" where
  "stopPatternClassify gpsData =
     (if length gpsData = 0 then None
      else
        let stops = findStops gpsData 0.5;
            speeds = map speedKmh gpsData;
            maxSpeed = Math_max (map to_num speeds)
        in if js_lt maxSpeed (Num 25) \<or> js_gt maxSpeed (Num 80) then None
           else if length stops = 0 then Some ''car''
           else
             let total = totalDistance gpsData;
                 avgDistanceBetweenStops = js_div total (Num (real (max 1 (length stops))));
                 stopFrequency = js_div (Num (real (length stops))) (js_div total (Num 1000));
                 isBusRange = (js_gt avgDistanceBetweenStops (Num 300) \<and>
                               js_lt avgDistanceBetweenStops (Num 1000))
             in if js_gt stopFrequency (Num 1) then Some ''bus''
                else if isBusRange \<and> length stops \<ge> 2 then Some ''bus''
                else Some ''car'')"


subsection \<open>Confusion matrix\<close>

text \<open>An object with string keys is an association list of its own properties in insertion
  order; a label of a pair is a string or missing. A missing label and the empty string are
  falsy.\<close>

datatype error = TypeError

type_synonym row = "(string \<times> jsnum) list"
type_synonym matrix = "(string \<times> row) list"

record prediction =
  actual :: "string option"
  predicted :: "string option"

definition modes :: "string list" where
  "modes = [''walking'', ''cycling'', ''bus'', ''car'', ''train'']"

definition truthy :: "string option \<Rightarrow> bool" where
  "truthy l = (case l of None \<Rightarrow> False | Some s \<Rightarrow> s \<noteq> [])"

definition initMatrix :: matrix where
  "initMatrix = map (\<lambda>a. (a, map (\<lambda>p. (p, Num 0)) modes)) modes"

text \<open>The matrix and its rows are created by \<^verbatim>\<open>{}\<close> and inherit the properties of
  \<^verbatim>\<open>Object.prototype\<close>: the accessor \<^verbatim>\<open>__proto__\<close> and eleven properties that hold
  functions.\<close>

definition objectPrototypeKeys :: "string list" where
  "objectPrototypeKeys =
     [''constructor'', ''__proto__'', ''hasOwnProperty'', ''isPrototypeOf'',
      ''propertyIsEnumerable'', ''toLocaleString'', ''toString'', ''valueOf'',
      ''__defineGetter__'', ''__defineSetter__'', ''__lookupGetter__'', ''__lookupSetter__'']"

text \<open>Properties of a function object that are read-only or that throw when read.\<close>

definition functionKeys :: "string list" where
  "functionKeys = [''length'', ''name'', ''prototype'', ''caller'', ''arguments'']"

text \<open>What the run of a statement does: it completes with a matrix, it throws, or it
  leaves what is described here (it writes to objects that all code shares).\<close>

datatype outcome = Returns matrix | Throws error | Unmodelled

text \<open>\<^verbatim>\<open>matrix[pred.actual][pred.predicted]++\<close> under its guard.
  \<^item> \<^verbatim>\<open>matrix[actual]\<close> is a row when \<^verbatim>\<open>actual\<close> is an own key. The old value of the cell is
    its number when \<^verbatim>\<open>predicted\<close> is an own key of the row, and \<^verbatim>\<open>NaN\<close> otherwise (from
    \<^verbatim>\<open>undefined\<close>, or from an inherited method or the prototype object, which convert to
    \<^verbatim>\<open>NaN\<close>); the incremented value becomes an own property of the row, except under the key
    \<^verbatim>\<open>__proto__\<close>, whose inherited setter drops a number.
  \<^item> \<^verbatim>\<open>matrix[actual]\<close> is a built-in function when \<^verbatim>\<open>actual\<close> names one of these eleven:
    nothing is thrown, the \<^verbatim>\<open>NaN\<close> is stored on that function and the matrix is left as it
    is. The keys for which the property of the function is read-only, throws or takes part in
    later conversions to a number are not described; neither is \<^verbatim>\<open>actual = "__proto__"\<close>,
    where the write lands on \<^verbatim>\<open>Object.prototype\<close> itself.
  \<^item> otherwise \<^verbatim>\<open>matrix[actual]\<close> is \<^verbatim>\<open>undefined\<close>, and reading a property of it throws a
    \<^verbatim>\<open>TypeError\<close>.\<close>

definition countPrediction :: "matrix \<Rightarrow> prediction \<Rightarrow> outcome" where
  "countPrediction m pred =
     (if truthy (actual pred) \<and> truthy (predicted pred)
      then (case map_of m (the (actual pred)) of
              Some r \<Rightarrow>
                let old = (case map_of r (the (predicted pred)) of None \<Rightarrow> NaN | Some c \<Rightarrow> c)
                in if map_of r (the (predicted pred)) = None \<and> the (predicted pred) = ''__proto__''
                   then Returns m
                   else Returns (AList.update (the (actual pred))
                          (AList.update (the (predicted pred)) (js_add old (Num 1)) r) m)
            | None \<Rightarrow>
                if the (actual pred) = ''__proto__'' then Unmodelled
                else if the (actual pred) \<in> set objectPrototypeKeys
                then (if the (predicted pred) \<in> set objectPrototypeKeys \<or>
                         the (predicted pred) \<in> set functionKeys
                      then Unmodelled else Returns m)
                else Throws TypeError)
      else Returns m)"

fun countPredictions :: "matrix \<Rightarrow> prediction list \<Rightarrow> outcome" where
  "countPredictions m [] = Returns m"
| "countPredictions m (pred # rest) =
     (case countPrediction m pred of
        Returns m' \<Rightarrow> countPredictions m' rest
      | Throws e \<Rightarrow> Throws e
      | Unmodelled \<Rightarrow> Unmodelled)"

definition buildConfusionMatrix :: "prediction list \<Rightarrow> outcome" where
  "buildConfusionMatrix predictions = countPredictions initMatrix predictions"

text \<open>Reading \<^verbatim>\<open>matrix[a][p]\<close> of a returned matrix, and the sum of all its cells.\<close>

definition cell :: "matrix \<Rightarrow> string \<Rightarrow> string \<Rightarrow> jsnum option" where
  "cell m a p = (case map_of m a of None \<Rightarrow> None | Some r \<Rightarrow> map_of r p)"

definition cellSum :: "matrix \<Rightarrow> jsnum" where
  "cellSum m = foldl js_add (Num 0) (concat (map (\<lambda>(a, r). map snd r) m))"

subsection \<open>Sample data\<close>

text \<open>Samples and pairs used to evaluate the functions on concrete inputs: a sample that
  carries only \<^verbatim>\<open>speedKmh\<close> (km/h).\<close>

definition kmhSample :: "real \<Rightarrow> point" where
  "kmhSample v = \<lparr> timestamp = None, latitude = None, longitude = None, speed = None,
                   speedKmh = Some v, heading = None \<rparr>"

text \<open>A sample at latitude \<open>lat\<close> (degrees) on the prime meridian, with \<^verbatim>\<open>speedKmh\<close>.\<close>

definition placedSample :: "real \<Rightarrow> real \<Rightarrow> point" where
  "placedSample lat v = \<lparr> timestamp = None, latitude = Some lat, longitude = Some 0,
                          speed = None, speedKmh = Some v, heading = None \<rparr>"

text \<open>A sample that carries \<^verbatim>\<open>speed\<close> (m/s) and no \<^verbatim>\<open>speedKmh\<close>.\<close>

definition msSample :: "real \<Rightarrow> point" where
  "msSample v = \<lparr> timestamp = None, latitude = None, longitude = None, speed = Some v,
                  speedKmh = None, heading = None \<rparr>"

text \<open>A sample that carries a heading (radians) and nothing else.\<close>

definition headingSample :: "real \<Rightarrow> point" where
  "headingSample h = \<lparr> timestamp = None, latitude = None, longitude = None, speed = None,
                       speedKmh = None, heading = Some h \<rparr>"

text \<open>A pair with both labels present.\<close>

definition labelled :: "string \<Rightarrow> string \<Rightarrow> prediction" where
  "labelled a p = \<lparr> actual = Some a, predicted = Some p \<rparr>"

subsection \<open>Mean and population standard deviation\<close>



subsection \<open>Notions used in the proofs\<close>


text \<open>The matrix over the five modes whose cell \<open>(a, p)\<close> holds the count \<open>cnt a p\<close>: the
  shape every matrix has while only in-vocabulary pairs are counted.\<close>

definition matrixOf :: "(string \<Rightarrow> string \<Rightarrow> nat) \<Rightarrow> matrix" where
  "matrixOf cnt = map (\<lambda>a. (a, map (\<lambda>p. (p, Num (real (cnt a p)))) modes)) modes"

text \<open>The number of pairs of a list with both labels present, and of those with the labels
  \<open>a\<close> and \<open>p\<close>.\<close>

definition counted :: "prediction \<Rightarrow> bool" where
  "counted pr = (truthy (actual pr) \<and> truthy (predicted pr))"

definition occurrences :: "prediction list \<Rightarrow> string \<Rightarrow> string \<Rightarrow> nat" where
  "occurrences preds a p =
     length (filter (\<lambda>pr. counted pr \<and> actual pr = Some a \<and> predicted pr = Some p) preds)"

definition gridTotal :: "(string \<Rightarrow> string \<Rightarrow> nat) \<Rightarrow> real" where
  "gridTotal cnt = sum_list (map (\<lambda>a. sum_list (map (\<lambda>p. real (cnt a p)) modes)) modes)"

text \<open>The equations of the two loops are unfolded by hand, one iteration at a time.\<close>

declare norm_down.simps [simp del] norm_up.simps [simp del]

section \<open>Properties\<close>

subsection \<open>The maximum speed\<close>

lemma js_max2_Num [simp]: "js_max2 (Num a) (Num b) = Num (max a b)"
  by (simp add: js_max2_def max_def)

lemma js_max2_NInf_Num [simp]: "js_max2 NInf (Num b) = Num b"
  by (simp add: js_max2_def)

lemma js_max2_NaN [simp]: "js_max2 NaN b = NaN" "js_max2 a NaN = NaN"
  by (simp_all add: js_max2_def)

lemma fold_js_max2_Num:
  "fold (\<lambda>x acc. js_max2 acc x) (map Num vs) (Num a) = Num (Max (insert a (set vs)))"
proof (induction vs arbitrary: a)
  case Nil
  show ?case by simp
next
  case (Cons v vs)
  have "Max (insert (max a v) (set vs)) = Max (insert a (insert v (set vs)))"
    by (cases "set vs = {}") (simp_all add: max.assoc max.commute max.left_commute)
  with Cons show ?case by simp
qed

lemma Math_max_Num:
  assumes "vs \<noteq> []"
  shows "Math_max (map Num vs) = Num (Max (set vs))"
proof -
  obtain v rest where vs: "vs = v # rest" using assms by (cases vs) auto
  show ?thesis
    unfolding vs Math_max_def by (simp add: fold_js_max2_Num)
qed

lemma fold_js_max2_NaN_acc: "fold (\<lambda>x acc. js_max2 acc x) xs NaN = NaN"
  by (induction xs) simp_all

lemma fold_js_max2_NaN_mem:
  "NaN \<in> set xs \<Longrightarrow> fold (\<lambda>x acc. js_max2 acc x) xs acc = NaN"
  by (induction xs arbitrary: acc) (auto simp: fold_js_max2_NaN_acc)

lemma Math_max_NaN: "NaN \<in> set xs \<Longrightarrow> Math_max xs = NaN"
  by (simp add: Math_max_def fold_js_max2_NaN_mem)

lemma to_num_Some: "map to_num (map Some vs) = map Num vs"
  by (induction vs) simp_all

lemma classify_Num:
  assumes "speedData \<noteq> []" "map speedKmh speedData = map Some vs"
  shows "Math_max (map to_num (map speedKmh speedData)) = Num (Max (set vs))"
proof -
  have "vs \<noteq> []" using assms by (metis map_is_Nil_conv)
  then show ?thesis unfolding assms(2) to_num_Some by (rule Math_max_Num)
qed

lemma map_const_Some:
  "\<forall>p \<in> set xs. f p = Some c \<Longrightarrow> map f xs = map Some (replicate (length xs) c)"
  by (induction xs) simp_all

lemma baselineClassify_Num:
  assumes "speedData \<noteq> []" "Math_max (map to_num (map speedKmh speedData)) = Num m"
  shows "baselineClassify speedData =
        (if m < 7 then ''walking''
         else if m < 25 then ''cycling''
         else if m < 80 then ''bus-or-car''
         else if m < 200 then ''train''
         else ''unknown'')"
  unfolding baselineClassify_def Let_def assms(2) using assms(1) by simp

lemma speedKmh_kmhSample [simp]: "speedKmh (kmhSample v) = Some v"
  by (simp add: kmhSample_def)

subsection \<open>Baseline classifier\<close>

text \<open>
  C4. \<^verbatim>\<open>baselineClassify\<close> returns \<^verbatim>\<open>unknown\<close> on the empty trajectory. On a non-empty
  trajectory whose samples all carry \<^verbatim>\<open>speedKmh\<close> it classifies the maximum speed \<open>m\<close>:
  \<^verbatim>\<open>walking\<close> if \<open>m < 7\<close>, \<^verbatim>\<open>cycling\<close> if \<open>7 \<le> m < 25\<close>, \<^verbatim>\<open>bus-or-car\<close> if
  \<open>25 \<le> m < 80\<close>, \<^verbatim>\<open>train\<close> if \<open>80 \<le> m < 200\<close> and \<^verbatim>\<open>unknown\<close> if \<open>m \<ge> 200\<close>.
  A non-empty trajectory of zero speeds is \<^verbatim>\<open>walking\<close>.
\<close>

theorem baselineClassify_thresholds:
  "baselineClassify [] = ''unknown'' \<and>
   (speedData \<noteq> [] \<and> map speedKmh speedData = map Some vs \<longrightarrow>
      baselineClassify speedData =
        (if Max (set vs) < 7 then ''walking''
         else if Max (set vs) < 25 then ''cycling''
         else if Max (set vs) < 80 then ''bus-or-car''
         else if Max (set vs) < 200 then ''train''
         else ''unknown'')) \<and>
   (speedData \<noteq> [] \<and> (\<forall>p \<in> set speedData. speedKmh p = Some 0) \<longrightarrow>
      baselineClassify speedData = ''walking'')"
proof (intro conjI impI)
  show "baselineClassify [] = ''unknown''" by (simp add: baselineClassify_def)
next
  assume h: "speedData \<noteq> [] \<and> map speedKmh speedData = map Some vs"
  from h have ne: "speedData \<noteq> []" and m: "map speedKmh speedData = map Some vs"
    by (rule conjunct1, rule conjunct2)
  show "baselineClassify speedData =
        (if Max (set vs) < 7 then ''walking''
         else if Max (set vs) < 25 then ''cycling''
         else if Max (set vs) < 80 then ''bus-or-car''
         else if Max (set vs) < 200 then ''train''
         else ''unknown'')"
    by (rule baselineClassify_Num[OF ne classify_Num[OF ne m]])
next
  assume h: "speedData \<noteq> [] \<and> (\<forall>p \<in> set speedData. speedKmh p = Some 0)"
  from h have ne: "speedData \<noteq> []" and z: "\<forall>p \<in> set speedData. speedKmh p = Some 0"
    by (rule conjunct1, rule conjunct2)
  have m: "map speedKmh speedData = map Some (replicate (length speedData) 0)"
    by (rule map_const_Some[OF z])
  have "set (replicate (length speedData) (0::real)) = {0}" using ne by simp
  then have "Max (set (replicate (length speedData) (0::real))) = 0" by simp
  with classify_Num[OF ne m]
  have "Math_max (map to_num (map speedKmh speedData)) = Num 0" by simp
  from baselineClassify_Num[OF ne this]
  show "baselineClassify speedData = ''walking''" by simp
qed

theorem baselineClassify_thresholds_witness:
  "[kmhSample 30, kmhSample 40, kmhSample 50] \<noteq> [] \<and>
   map speedKmh [kmhSample 30, kmhSample 40, kmhSample 50] = map Some [30, 40, 50] \<and>
   baselineClassify [kmhSample 30, kmhSample 40, kmhSample 50] = ''bus-or-car'' \<and>
   map speedKmh [kmhSample 0, kmhSample 0] = [Some 0, Some 0] \<and>
   baselineClassify [kmhSample 0, kmhSample 0] = ''walking''"
  using baselineClassify_thresholds [of "[kmhSample 30, kmhSample 40, kmhSample 50]" "[30, 40, 50]"]
        baselineClassify_thresholds [of "[kmhSample 0, kmhSample 0]" "[]"]
  by simp

subsection \<open>Rounding to double precision\<close>

lemma rne_of_int [simp]: "rne (of_int k) = k"
  by (simp add: rne_def)

lemma rne_le_ceiling: "rne y \<le> \<lceil>y\<rceil>"
proof -
  have "y - of_int \<lfloor>y\<rfloor> < 1 / 2 \<or> \<lfloor>y\<rfloor> + 1 \<le> \<lceil>y\<rceil>"
    by (smt (verit, best) ceiling_altdef floor_of_int of_int_floor_cancel field_sum_of_halves)
  moreover have "\<lfloor>y\<rfloor> \<le> \<lceil>y\<rceil>" by (rule floor_le_ceiling)
  ultimately show ?thesis by (auto simp: rne_def Let_def)
qed

lemma rne_le_int: "y \<le> of_int k \<Longrightarrow> rne y \<le> k"
  using rne_le_ceiling[of y] by (meson ceiling_le order_trans)

lemma rne_upper: "of_int (rne y) \<le> y + 1 / 2"
  unfolding rne_def Let_def by (auto; linarith)

lemma rne_nonneg: "0 \<le> y \<Longrightarrow> 0 \<le> rne y"
  unfolding rne_def Let_def by (auto; linarith)

lemma fl_0 [simp]: "fl 0 = 0"
  by (simp add: fl_def)

lemma fl_nonneg: "0 \<le> x \<Longrightarrow> 0 \<le> fl x"
  unfolding fl_def Let_def by (auto intro!: mult_nonneg_nonneg rne_nonneg divide_nonneg_nonneg)

text \<open>The exponent of a positive number below \<open>2\<^sup>5\<^sup>3\<close>.\<close>

lemma exponent_le_52:
  assumes "0 < x" "x < 2 ^ 53"
  shows "\<lfloor>log 2 x\<rfloor> \<le> 52"
proof -
  have "x < 2 powr 53" using assms(2) by (simp add: powr_numeral)
  then have "log 2 x < 53" using assms(1) by (simp add: log_less_iff)
  then show ?thesis by linarith
qed

lemma int_over_quantum:
  assumes "u \<le> 0"
  shows "real c / 2 powr (of_int u) = of_int (int c * 2 ^ nat (- u))"
proof -
  have "2 powr (of_int u) = 1 / (2::real) ^ nat (- u)"
    using assms by (smt (verit) powr_minus_divide powr_realpow of_int_minus of_nat_nat zero_less_numeral of_int_of_nat_eq)
  then show ?thesis by simp
qed

lemma fl_le_nat:
  assumes "x \<le> real c" "c < 2 ^ 53"
  shows "fl x \<le> real c"
proof (cases "x \<le> 0")
  case True
  show ?thesis
  proof (cases "x = 0")
    case True then show ?thesis by simp
  next
    case False
    with True have neg: "x < 0" by simp
    define q :: real where "q = 2 powr (of_int (max (\<lfloor>log 2 \<bar>x\<bar>\<rfloor> - 52) (- 1074)))"
    have q: "0 < q" by (simp add: q_def)
    have "x / q \<le> of_int 0" using neg q by (simp add: divide_nonpos_pos less_imp_le)
    then have "rne (x / q) \<le> 0" by (rule rne_le_int)
    then have "of_int (rne (x / q)) * q \<le> 0"
      using q by (simp add: mult_nonpos_nonneg)
    moreover have "fl x = of_int (rne (x / q)) * q"
      using False unfolding fl_def Let_def q_def by simp
    ultimately show ?thesis by simp
  qed
next
  case False
  then have pos: "0 < x" by simp
  define u where "u = max (\<lfloor>log 2 \<bar>x\<bar>\<rfloor> - 52) (- 1074)"
  define q :: real where "q = 2 powr (of_int u)"
  have q: "0 < q" by (simp add: q_def)
  have "real c < real (2 ^ 53)" using assms(2) by (simp only: of_nat_less_iff)
  then have "x < 2 ^ 53" using assms(1) by simp
  then have "\<lfloor>log 2 x\<rfloor> \<le> 52" using pos by (intro exponent_le_52)
  then have u: "u \<le> 0" using pos by (simp add: u_def)
  have "x / q \<le> real c / q" using assms(1) q by (simp add: divide_right_mono)
  also have "\<dots> = of_int (int c * 2 ^ nat (- u))" unfolding q_def by (rule int_over_quantum[OF u])
  finally have "rne (x / q) \<le> int c * 2 ^ nat (- u)" by (rule rne_le_int)
  then have "of_int (rne (x / q)) \<le> (of_int (int c * 2 ^ nat (- u)) :: real)" by linarith
  also have "\<dots> = real c / q" unfolding q_def by (rule int_over_quantum[OF u, symmetric])
  finally have "of_int (rne (x / q)) * q \<le> real c" using q by (simp add: pos_le_divide_eq)
  moreover have "fl x = of_int (rne (x / q)) * q"
    using pos unfolding fl_def Let_def q_def u_def by simp
  ultimately show ?thesis by simp
qed

lemma fl_nat:
  assumes "n < 2 ^ 53"
  shows "fl (real n) = real n"
proof (cases "n = 0")
  case True then show ?thesis by simp
next
  case False
  then have pos: "0 < real n" by simp
  define u where "u = max (\<lfloor>log 2 \<bar>real n\<bar>\<rfloor> - 52) (- 1074)"
  define q :: real where "q = 2 powr (of_int u)"
  have q: "0 < q" by (simp add: q_def)
  have "real n < real (2 ^ 53)" using assms by (simp only: of_nat_less_iff)
  then have "real n < 2 ^ 53" by simp
  then have "\<lfloor>log 2 (real n)\<rfloor> \<le> 52" using pos by (intro exponent_le_52)
  then have u: "u \<le> 0" using pos by (simp add: u_def)
  have "real n / q = of_int (int n * 2 ^ nat (- u))" unfolding q_def by (rule int_over_quantum[OF u])
  then have "of_int (rne (real n / q)) * q = real n / q * q" by (simp only: rne_of_int)
  also have "\<dots> = real n" using q by simp
  finally have "of_int (rne (real n / q)) * q = real n" .
  moreover have "fl (real n) = of_int (rne (real n / q)) * q"
    using False unfolding fl_def Let_def q_def u_def by simp
  ultimately show ?thesis by simp
qed

text \<open>The relative error of rounding is at most \<open>2\<^sup>-\<^sup>5\<^sup>3\<close> from 1 upwards.\<close>

lemma fl_relative:
  assumes "1 \<le> x"
  shows "fl x \<le> x + x / 2 ^ 53"
proof -
  define e where "e = \<lfloor>log 2 \<bar>x\<bar>\<rfloor>"
  define q :: real where "q = 2 powr (of_int (e - 52))"
  have q: "0 < q" by (simp add: q_def)
  have x: "0 < x" using assms by simp
  have "0 \<le> log 2 x" using assms by simp
  then have e0: "0 \<le> e" using x by (simp add: e_def)
  then have u: "max (e - 52) (- 1074) = e - 52" by simp
  have "2 powr (of_int e) \<le> x"
    using floor_log_eq_powr_iff[of x 2 e] x by (simp add: e_def)
  moreover have "q = 2 powr (of_int e) / 2 ^ 52"
    unfolding q_def by (simp add: powr_diff)
  ultimately have h: "q / 2 \<le> x / 2 ^ 53" by (simp add: field_simps)
  have "of_int (rne (x / q)) * q \<le> (x / q + 1 / 2) * q"
    using rne_upper[of "x / q"] q by (simp add: mult_right_mono)
  also have "\<dots> = x + q / 2" using q by (simp add: field_simps)
  finally have "of_int (rne (x / q)) * q \<le> x + x / 2 ^ 53" using h by linarith
  moreover have "fl x = of_int (rne (x / q)) * q"
    using x unfolding fl_def Let_def e_def[symmetric] u q_def by simp
  ultimately show ?thesis by simp
qed

text \<open>Rounding a positive number whose exponent is known.\<close>

lemma fl_scaled:
  assumes "2 ^ 52 \<le> x * 2 ^ k" "x * 2 ^ k < 2 ^ 53" "k \<le> 1074"
  shows "fl x = of_int (rne (x * 2 ^ k)) / 2 ^ k"
proof -
  have x: "0 < x" using assms(1) by (smt (verit) mult_nonpos_nonneg zero_le_power zero_less_power)
  have lo: "(2::real) ^ 52 / 2 ^ k \<le> x" using assms(1) by (simp add: pos_divide_le_eq)
  have hi: "x < (2::real) ^ 53 / 2 ^ k" using assms(2) by (simp add: pos_less_divide_eq)
  have p52: "2 powr (of_int (52 - int k)) = (2::real) ^ 52 / 2 ^ k"
    by (simp add: powr_diff powr_realpow)
  have p53: "2 powr (of_int (52 - int k) + 1) = (2::real) ^ 53 / 2 ^ k"
    by (simp add: powr_diff powr_add powr_realpow)
  have "2 powr (of_int (52 - int k)) \<le> x \<and> x < 2 powr (of_int (52 - int k) + 1)"
    unfolding p52 p53 using lo hi by (rule conjI)
  then have e: "\<lfloor>log 2 \<bar>x\<bar>\<rfloor> = 52 - int k"
    using floor_log_eq_powr_iff[of x 2 "52 - int k"] x by simp
  have u: "max (52 - int k - 52) (- 1074) = - int k" using assms(3) by simp
  have q: "2 powr (of_int (- int k)) = 1 / (2::real) ^ k"
    by (simp add: powr_minus_divide powr_realpow)
  have "fl x = of_int (rne (x / 2 powr (of_int (- int k)))) * 2 powr (of_int (- int k))"
    using x unfolding fl_def Let_def e u by simp
  then show ?thesis unfolding q by simp
qed

lemma rne_lower: "y - 1 / 2 \<le> of_int (rne y)"
  unfolding rne_def Let_def by (auto; linarith)

text \<open>The error of a rounding: half a quantum, which is at most \<open>2\<^sup>-\<^sup>5\<^sup>3\<close> of the number in the
  normal range and less than that of 1 below it.\<close>

lemma fl_error: "\<bar>fl x - x\<bar> \<le> (\<bar>x\<bar> + 1) / 2 ^ 53"
proof (cases "x = 0")
  case True
  then show ?thesis by simp
next
  case False
  define e where "e = \<lfloor>log 2 \<bar>x\<bar>\<rfloor>"
  define q :: real where "q = 2 powr (of_int (max (e - 52) (- 1074)))"
  have q: "0 < q" by (simp add: q_def)
  have ax: "0 < \<bar>x\<bar>" using False by simp
  have fx: "fl x = of_int (rne (x / q)) * q"
    using False unfolding fl_def Let_def e_def q_def by simp
  have "\<bar>of_int (rne (x / q)) - x / q\<bar> \<le> 1 / 2"
    using rne_lower[of "x / q"] rne_upper[of "x / q"] by linarith
  then have "\<bar>of_int (rne (x / q)) - x / q\<bar> * q \<le> 1 / 2 * q"
    using q by (intro mult_right_mono) simp_all
  moreover have "\<bar>of_int (rne (x / q)) - x / q\<bar> * q = \<bar>fl x - x\<bar>"
  proof -
    have "\<bar>of_int (rne (x / q)) - x / q\<bar> * q = \<bar>(of_int (rne (x / q)) - x / q) * q\<bar>"
      using q by (simp add: abs_mult)
    also have "(of_int (rne (x / q)) - x / q) * q = fl x - x"
      using q by (simp add: fx field_simps)
    finally show ?thesis .
  qed
  ultimately have h: "\<bar>fl x - x\<bar> \<le> q / 2" by simp
  have pe: "2 powr (of_int e) \<le> \<bar>x\<bar>"
    using floor_log_eq_powr_iff[of "\<bar>x\<bar>" 2 e] ax by (simp add: e_def)
  have "q \<le> (\<bar>x\<bar> + 1) / 2 ^ 52"
  proof (cases "- 1074 \<le> e - 52")
    case True
    then have "max (e - 52) (- 1074) = e - 52" by simp
    then have "q = 2 powr (of_int (e - 52))" by (simp only: q_def)
    also have "\<dots> = 2 powr (of_int e - 52)" by simp
    also have "\<dots> = 2 powr (of_int e) / 2 ^ 52" by (simp add: powr_diff)
    also have "\<dots> \<le> (\<bar>x\<bar> + 1) / 2 ^ 52" using pe by (intro divide_right_mono) simp_all
    finally show ?thesis .
  next
    case False
    then have "max (e - 52) (- 1074) = - 1074" by simp
    then have "q = 2 powr (of_int (- 1074))" by (simp only: q_def)
    also have "\<dots> = 2 powr (- 1074)" by simp
    also have "\<dots> \<le> 2 powr (- 52)" by (intro powr_mono) simp_all
    also have "\<dots> = 1 / 2 ^ 52" by (simp add: powr_minus_divide)
    also have "\<dots> \<le> (\<bar>x\<bar> + 1) / 2 ^ 52" by (intro divide_right_mono) simp_all
    finally show ?thesis .
  qed
  then have "q / 2 \<le> (\<bar>x\<bar> + 1) / 2 ^ 53" by simp
  with h show ?thesis by linarith
qed

lemma fl_28: "fl (28 / 100) = 5044031582654956 / 2 ^ 54"
  by (subst fl_scaled[of _ 54]) (simp_all add: rne_def)

lemma fl_28_25: "fl (5044031582654956 / 2 ^ 54 * 25) = 7881299347898369 / 2 ^ 50"
  by (subst fl_scaled[of _ 50]) (simp_all add: rne_def)

lemma fl_95: "fl (95 / 100) = 8556839292003942 / 2 ^ 53"
  by (subst fl_scaled[of _ 53]) (simp_all add: rne_def)

lemma fl_1: "fl 1 = 1"
  using fl_nat[of 1] by simp

lemma fl_half: "fl (1 / 2) = 1 / 2"
  by (subst fl_scaled[of _ 53]) (simp_all add: rne_def)

lemma fl_3_halves: "fl (3 / 2) = 3 / 2"
  by (subst fl_scaled[of _ 52]) (simp_all add: rne_def)

subsection \<open>Percentile\<close>

lemma map_filter_id_Some: "List.map_filter id (map Some vs) = vs"
  by (induction vs) (simp_all add: List.map_filter_simps)

lemma filter_None_Some: "filter (\<lambda>x. x = None) (map Some vs) = []"
  by (induction vs) simp_all

lemma js_sort_Some: "js_sort (map Some vs) = map Some (sort vs)"
  by (simp only: js_sort_def map_filter_id_Some filter_None_Some append_Nil2)

lemma js_index_Some:
  "0 \<le> i \<Longrightarrow> i < int (length vs) \<Longrightarrow> js_index (map Some vs) i = Some (vs ! nat i)"
  by (simp add: js_index_def)

text \<open>The rounded index stays in the array: the quotient is at most 1 and the product at
  most the length, which is a double.\<close>

lemma percentile_index_bounds:
  assumes "0 \<le> p" "p \<le> 100" "n < 2 ^ 53"
  shows "\<lceil>fl (fl (p / 100) * real n)\<rceil> - 1 \<le> int n - 1"
proof -
  have "p / 100 \<le> real 1" using assms(2) by simp
  then have "fl (p / 100) \<le> real 1" by (rule fl_le_nat) simp
  then have "fl (p / 100) * real n \<le> 1 * real n"
    by (intro mult_right_mono) simp_all
  then have "fl (p / 100) * real n \<le> real n" by simp
  then have "fl (fl (p / 100) * real n) \<le> real n" using assms(3) by (rule fl_le_nat)
  then have "fl (fl (p / 100) * real n) \<le> of_int (int n)" by simp
  then have "\<lceil>fl (fl (p / 100) * real n)\<rceil> \<le> int n" by (simp only: ceiling_le_iff)
  then show ?thesis by simp
qed

lemma sorted_last_Max:
  fixes xs :: "real list"
  assumes "sorted xs" "xs \<noteq> []"
  shows "xs ! (length xs - 1) = Max (set xs)"
proof (rule sym, rule Max_eqI)
  show "finite (set xs)" by simp
next
  fix y assume "y \<in> set xs"
  then obtain i where i: "i < length xs" "xs ! i = y" by (auto simp: in_set_conv_nth)
  then have "xs ! i \<le> xs ! (length xs - 1)"
    using assms by (intro sorted_nth_mono) auto
  with i show "y \<le> xs ! (length xs - 1)" by simp
next
  show "xs ! (length xs - 1) \<in> set xs" using assms by simp
qed

lemma sorted_first_Min:
  fixes xs :: "real list"
  assumes "sorted xs" "xs \<noteq> []"
  shows "xs ! 0 = Min (set xs)"
proof (rule sym, rule Min_eqI)
  show "finite (set xs)" by simp
next
  fix y assume "y \<in> set xs"
  then obtain i where i: "i < length xs" "xs ! i = y" by (auto simp: in_set_conv_nth)
  then have "xs ! 0 \<le> xs ! i"
    using assms by (intro sorted_nth_mono) auto
  with i show "xs ! 0 \<le> y" by simp
next
  show "xs ! 0 \<in> set xs" using assms by simp
qed

text \<open>For an array (fewer than \<open>2\<^sup>3\<^sup>2\<close> elements) the rounded product is within 1 of the exact
  one, and the index within one place of the index of exact arithmetic.\<close>

lemma percentile_product_error:
  assumes "0 \<le> p" "p \<le> 100" "n < 2 ^ 32"
  shows "\<bar>fl (fl (p / 100) * real n) - p / 100 * real n\<bar> < 1"
proof -
  define y where "y = p / 100"
  have y: "0 \<le> y" "y \<le> 1" using assms(1,2) by (simp_all add: y_def)
  have n: "real n < 2 ^ 32"
  proof -
    have "real n < real (2 ^ 32)" using assms(3) by (simp only: of_nat_less_iff)
    then show ?thesis by simp
  qed
  have f0: "0 \<le> fl y" using y(1) by (rule fl_nonneg)
  have "y \<le> real 1" using y(2) by simp
  then have "fl y \<le> real 1" by (rule fl_le_nat) simp
  then have f1: "fl y \<le> 1" by simp
  have e1: "\<bar>fl y - y\<bar> \<le> 2 / 2 ^ 53"
  proof -
    have "\<bar>fl y - y\<bar> \<le> (\<bar>y\<bar> + 1) / 2 ^ 53" by (rule fl_error)
    also have "\<dots> \<le> (1 + 1) / 2 ^ 53" using y by (intro divide_right_mono add_right_mono) simp_all
    finally show ?thesis by simp
  qed
  have z: "0 \<le> fl y * real n" "fl y * real n \<le> 2 ^ 32"
  proof -
    show "0 \<le> fl y * real n" using f0 by simp
    have "fl y * real n \<le> 1 * real n" using f1 by (intro mult_right_mono) simp_all
    then show "fl y * real n \<le> 2 ^ 32" using n by simp
  qed
  have e2: "\<bar>fl (fl y * real n) - fl y * real n\<bar> \<le> (2 ^ 32 + 1) / 2 ^ 53"
  proof -
    have "\<bar>fl (fl y * real n) - fl y * real n\<bar> \<le> (\<bar>fl y * real n\<bar> + 1) / 2 ^ 53"
      by (rule fl_error)
    also have "\<dots> \<le> (2 ^ 32 + 1) / 2 ^ 53"
      using z by (intro divide_right_mono add_right_mono) simp_all
    finally show ?thesis .
  qed
  have e3: "\<bar>fl y * real n - y * real n\<bar> \<le> 2 / 2 ^ 53 * 2 ^ 32"
  proof -
    have "\<bar>fl y * real n - y * real n\<bar> = \<bar>fl y - y\<bar> * real n"
      by (simp add: abs_mult left_diff_distrib[symmetric])
    also have "\<dots> \<le> 2 / 2 ^ 53 * 2 ^ 32"
      using e1 n by (intro mult_mono) simp_all
    finally show ?thesis .
  qed
  have "\<bar>fl (fl y * real n) - y * real n\<bar>
          \<le> \<bar>fl (fl y * real n) - fl y * real n\<bar> + \<bar>fl y * real n - y * real n\<bar>"
    by simp
  also have "\<dots> \<le> (2 ^ 32 + 1) / 2 ^ 53 + 2 / 2 ^ 53 * 2 ^ 32"
    using e2 e3 by (rule add_mono)
  also have "\<dots> < 1" by simp
  finally show ?thesis unfolding y_def .
qed

lemma ceiling_close:
  fixes a b :: real
  assumes "\<bar>a - b\<bar> < 1"
  shows "\<bar>\<lceil>a\<rceil> - \<lceil>b\<rceil>\<bar> \<le> 1"
proof -
  have "a < of_int \<lceil>b\<rceil> + 1" "b < of_int \<lceil>a\<rceil> + 1"
    using assms le_of_int_ceiling[of a] le_of_int_ceiling[of b] by linarith+
  then have "\<lceil>a\<rceil> \<le> \<lceil>b\<rceil> + 1" "\<lceil>b\<rceil> \<le> \<lceil>a\<rceil> + 1"
    by (metis add.commute ceiling_le_iff less_eq_real_def of_int_1 of_int_add)+
  then show ?thesis by linarith
qed

lemma percentile_index_close:
  assumes "0 \<le> p" "p \<le> 100" "n < 2 ^ 32"
  shows "\<bar>(\<lceil>fl (fl (p / 100) * real n)\<rceil> - 1) - (\<lceil>p / 100 * real n\<rceil> - 1)\<bar> \<le> 1"
  using ceiling_close[OF percentile_product_error[OF assms]] by simp

text \<open>The element read, for an index inside the array.\<close>

lemma percentile_at:
  assumes "max 0 (\<lceil>fl (fl (p / 100) * real (length vals))\<rceil> - 1) < int (length vals)"
  shows "percentile (map Some vals) p =
           Some (sort vals ! nat (max 0 (\<lceil>fl (fl (p / 100) * real (length vals))\<rceil> - 1)))"
proof -
  let ?i = "max 0 (\<lceil>fl (fl (p / 100) * real (length vals))\<rceil> - 1)"
  have ub: "?i < int (length (sort vals))" using assms by simp
  have lb: "0 \<le> ?i" by simp
  have "js_index (map Some (sort vals)) ?i = Some (sort vals ! nat ?i)"
    by (rule js_index_Some[OF lb ub])
  then show ?thesis
    by (simp add: percentile_def percentile_run_def js_sort_Some Let_def)
qed

lemma percentile_Some:
  assumes "vals \<noteq> []" "length vals < 2 ^ 53" "0 \<le> p" "p \<le> 100"
  shows "percentile (map Some vals) p =
           Some (sort vals ! nat (max 0 (\<lceil>fl (fl (p / 100) * real (length vals))\<rceil> - 1)))"
proof (rule percentile_at)
  have n: "0 < length vals" using assms(1) by simp
  show "max 0 (\<lceil>fl (fl (p / 100) * real (length vals))\<rceil> - 1) < int (length vals)"
    using percentile_index_bounds[OF assms(3,4,2)] n by simp
qed

text \<open>
  C5 (amended). For a non-empty array of numbers (an array has fewer than \<open>2\<^sup>3\<^sup>2\<close> elements)
  and \<open>p\<close> in \<open>[0, 100]\<close>, \<^verbatim>\<open>percentile\<close> leaves the caller's array as it was and returns
  the element of the sorted copy at index \<open>\<lceil>p / 100 * n\<rceil> - 1\<close> clamped to \<open>[0, n - 1]\<close>, where
  the quotient and the product are rounded to double precision; this index is the one of
  exact arithmetic or next to it. For \<open>p = 100\<close> the result is the maximum, for \<open>p = 0\<close> the
  minimum, and it always lies between the two.
\<close>

theorem percentile_selects:
  assumes "vals \<noteq> []" "length vals < 2 ^ 32" "0 \<le> p" "p \<le> 100"
  shows "percentile_run (map Some vals) p =
           (map Some vals,
            Some (sort vals !
              nat (max 0 (min (int (length vals) - 1)
                              (\<lceil>fl (fl (p / 100) * real (length vals))\<rceil> - 1))))) \<and>
         \<bar>(\<lceil>fl (fl (p / 100) * real (length vals))\<rceil> - 1)
            - (\<lceil>p / 100 * real (length vals)\<rceil> - 1)\<bar> \<le> 1 \<and>
         percentile (map Some vals) 100 = Some (Max (set vals)) \<and>
         percentile (map Some vals) 0 = Some (Min (set vals)) \<and>
         (\<exists>r. percentile (map Some vals) p = Some r \<and>
              Min (set vals) \<le> r \<and> r \<le> Max (set vals))"
proof (intro conjI)
  have n: "0 < length vals" using assms(1) by simp
  have len: "length vals < 2 ^ 53"
    by (rule less_trans[OF assms(2)]) simp
  show "\<bar>(\<lceil>fl (fl (p / 100) * real (length vals))\<rceil> - 1)
            - (\<lceil>p / 100 * real (length vals)\<rceil> - 1)\<bar> \<le> 1"
    by (rule percentile_index_close[OF assms(3,4,2)])
  have clamp: "min (int (length vals) - 1) (\<lceil>fl (fl (p / 100) * real (length vals))\<rceil> - 1)
                 = \<lceil>fl (fl (p / 100) * real (length vals))\<rceil> - 1"
    using percentile_index_bounds[OF assms(3,4) len] by simp
  have "snd (percentile_run (map Some vals) p) =
          Some (sort vals ! nat (max 0 (\<lceil>fl (fl (p / 100) * real (length vals))\<rceil> - 1)))"
    using percentile_Some[OF assms(1) len assms(3,4)] by (simp only: percentile_def)
  moreover have "fst (percentile_run (map Some vals) p) = map Some vals"
    by (simp add: percentile_run_def Let_def)
  ultimately show "percentile_run (map Some vals) p =
           (map Some vals,
            Some (sort vals !
              nat (max 0 (min (int (length vals) - 1)
                              (\<lceil>fl (fl (p / 100) * real (length vals))\<rceil> - 1)))))"
    unfolding clamp by (simp add: prod_eq_iff)
  have "length (sort vals) \<noteq> 0" using n by simp
  then have s: "sorted (sort vals)" "sort vals \<noteq> []" by (simp, fastforce)
  have "fl (fl (100 / 100) * real (length vals)) = real (length vals)"
    using fl_nat[OF len] by (simp add: fl_1)
  then have "percentile (map Some vals) 100 = Some (sort vals ! (length (sort vals) - 1))"
    using percentile_Some[OF assms(1) len, of 100] n by (simp add: nat_diff_distrib')
  then show "percentile (map Some vals) 100 = Some (Max (set vals))"
    using sorted_last_Max[OF s] by simp
  have "percentile (map Some vals) 0 = Some (sort vals ! 0)"
    using percentile_Some[OF assms(1) len, of 0] by simp
  then show "percentile (map Some vals) 0 = Some (Min (set vals))"
    using sorted_first_Min[OF s] by simp
  let ?k = "nat (max 0 (\<lceil>fl (fl (p / 100) * real (length vals))\<rceil> - 1))"
  have k: "?k < length vals"
    using percentile_index_bounds[OF assms(3,4) len] n by linarith
  then have mem: "sort vals ! ?k \<in> set vals"
    by (metis length_sort nth_mem set_sort)
  have "Min (set vals) \<le> sort vals ! ?k" "sort vals ! ?k \<le> Max (set vals)"
    using mem by simp_all
  then show "\<exists>r. percentile (map Some vals) p = Some r \<and>
              Min (set vals) \<le> r \<and> r \<le> Max (set vals)"
    using percentile_Some[OF assms(1) len assms(3,4)] by simp
qed

theorem percentile_selects_witness:
  "[3, 1, 2 :: real] \<noteq> [] \<and> length [3, 1, 2 :: real] < 2 ^ 32 \<and>
   (0::real) \<le> 50 \<and> (50::real) \<le> 100 \<and>
   percentile_run (map Some [3, 1, 2]) 50 = (map Some [3, 1, 2], Some 2) \<and>
   percentile (map Some [3, 1, 2]) 100 = Some 3 \<and>
   percentile (map Some [3, 1, 2]) 0 = Some 1"
  using percentile_selects [of "[3, 1, 2]" 50]
  by (simp add: fl_half fl_3_halves)

text \<open>With exact arithmetic the index for \<open>p = 28\<close> and 25 elements is
  \<open>\<lceil>0.28 \<times> 25\<rceil> - 1 = 6\<close>. In double precision \<^verbatim>\<open>28 / 100\<close> is above \<open>0.28\<close> and the product
  is \<^verbatim>\<open>7.000000000000001\<close>: the index is 7 and the element returned is the next one.\<close>

theorem percentile_rounding_counterexample:
  "percentile (map Some [1, 2, 3, 4, 5, 6, 7, 8, 9, 10, 11, 12, 13, 14, 15, 16, 17, 18, 19,
                         20, 21, 22, 23, 24, 25]) 28 = Some 8 \<and>
   sort [1, 2, 3, 4, 5, 6, 7, 8, 9, 10, 11, 12, 13, 14, 15, 16, 17, 18, 19,
         20, 21, 22, 23, 24, 25 :: real] !
     nat (max 0 (min (int 25 - 1) (\<lceil>(28 / 100) * real 25\<rceil> - 1))) = 7"
proof
  let ?vals = "[1, 2, 3, 4, 5, 6, 7, 8, 9, 10, 11, 12, 13, 14, 15, 16, 17, 18, 19,
                20, 21, 22, 23, 24, 25 :: real]"
  have s: "sort ?vals = ?vals" by (rule sorted_sort_id) simp
  have l: "real (length ?vals) = 25" by simp
  have i: "\<lceil>fl (fl (28 / 100) * real (length ?vals))\<rceil> - 1 = 7"
    unfolding l fl_28 fl_28_25 by simp
  have "max 0 (\<lceil>fl (fl (28 / 100) * real (length ?vals))\<rceil> - 1) < int (length ?vals)"
    unfolding i by simp
  from percentile_at[OF this] show "percentile (map Some ?vals) 28 = Some 8"
    unfolding i s by simp
  show "sort ?vals ! nat (max 0 (min (int 25 - 1) (\<lceil>(28 / 100) * real 25\<rceil> - 1))) = 7"
    unfolding s by simp
qed

subsection \<open>Percentile95 classifier and a single outlier\<close>

lemma percentile95Classify_Num:
  assumes "speedData \<noteq> []" "percentile (map speedKmh speedData) 95 = Some v"
  shows "percentile95Classify speedData =
        (if v < 7 then ''walking''
         else if v < 25 then ''cycling''
         else if v < 80 then ''bus-or-car''
         else if v < 200 then ''train''
         else ''unknown'')"
  unfolding percentile95Classify_def Let_def assms(2) using assms(1) by simp

lemma length_filter_sort:
  fixes vs :: "real list"
  shows "length (filter P (sort vs)) = length (filter P vs)"
proof -
  have "mset (filter P (sort vs)) = mset (filter P vs)" by simp
  then show ?thesis by (rule mset_eq_length)
qed

lemma two_indices_filter:
  assumes "i < j" "j < length ys" "P (ys ! i)" "P (ys ! j)"
  shows "2 \<le> length (filter P ys)"
proof -
  have sub: "{i, j} \<subseteq> {n. n < length ys \<and> P (ys ! n)}" using assms by auto
  have "card {i, j} \<le> card {n. n < length ys \<and> P (ys ! n)}"
    by (rule card_mono[OF _ sub]) simp
  moreover have "card {i, j} = 2" using assms(1) by simp
  ultimately show ?thesis by (simp add: length_filter_conv_card)
qed

lemma one_outlier_filter:
  fixes vs :: "real list"
  assumes "k < length vs" "\<forall>i < length vs. i \<noteq> k \<longrightarrow> vs ! i \<le> 6" "6 < vs ! k"
  shows "length (filter (\<lambda>x. 6 < x) vs) = 1"
proof -
  have "{n. n < length vs \<and> 6 < vs ! n} = {k}"
    using assms by (auto simp: not_le[symmetric])
  then show ?thesis by (simp add: length_filter_conv_card)
qed

lemma below_last_le_6:
  fixes vs :: "real list"
  assumes "k < length vs" "\<forall>i < length vs. i \<noteq> k \<longrightarrow> vs ! i \<le> 6" "6 < vs ! k"
      and "Suc j < length vs"
  shows "sort vs ! j \<le> 6"
proof (rule ccontr)
  assume "\<not> sort vs ! j \<le> 6"
  then have gt: "6 < sort vs ! j" by simp
  have len: "length (sort vs) = length vs" by simp
  have "sort vs ! j \<le> sort vs ! (length vs - 1)"
    using assms(4) by (intro sorted_nth_mono) simp_all
  with gt have gt': "6 < sort vs ! (length vs - 1)" by simp
  have "2 \<le> length (filter (\<lambda>x. 6 < x) (sort vs))"
    by (rule two_indices_filter[of j "length vs - 1"]) (use assms(4) gt gt' in simp_all)
  then show False
    using one_outlier_filter[OF assms(1-3)] by (simp add: length_filter_sort)
qed

text \<open>The double nearest to \<open>0.95\<close> is below \<open>0.95\<close>, and for 20 elements or more the rounded
  product is at most \<open>n - 1\<close>: below \<open>2\<^sup>5\<^sup>3\<close> because \<open>n - 1\<close> is a double, and from there on
  because the relative error of a rounding is at most \<open>2\<^sup>-\<^sup>5\<^sup>3\<close>.\<close>

lemma p95_product:
  assumes "20 \<le> n"
  shows "fl (fl (95 / 100) * real n) \<le> real n - 1"
proof -
  let ?c = "8556839292003942 / 2 ^ 53 :: real"
  have c: "?c \<le> 95 / 100" by simp
  have n: "20 \<le> real n" using assms by simp
  have x: "?c * real n \<le> real n - 1"
  proof -
    have "?c * real n \<le> 95 / 100 * real n" using c by (intro mult_right_mono) simp_all
    also have "\<dots> \<le> real n - 1" using n by simp
    finally show ?thesis .
  qed
  show ?thesis
  proof (cases "n - 1 < 2 ^ 53")
    case True
    have "?c * real n \<le> real (n - 1)" using x assms by (simp add: of_nat_diff)
    then have "fl (?c * real n) \<le> real (n - 1)" using True by (rule fl_le_nat)
    also have "real (n - 1) = real n - 1" using assms by (simp add: of_nat_diff)
    finally show ?thesis unfolding fl_95 .
  next
    case False
    then have "2 ^ 53 \<le> n" by simp
    then have "real (2 ^ 53) \<le> real n" by (simp only: of_nat_le_iff)
    then have big: "2 ^ 53 \<le> real n" by simp
    have one: "1 \<le> ?c * real n"
    proof -
      have "1 \<le> ?c * 20" by simp
      also have "\<dots> \<le> ?c * real n" using n by (intro mult_left_mono) simp_all
      finally show ?thesis .
    qed
    have "fl (?c * real n) \<le> ?c * real n + ?c * real n / 2 ^ 53" by (rule fl_relative[OF one])
    also have "\<dots> \<le> 95 / 100 * real n + 95 / 100 * real n / 2 ^ 53"
      using c n by (intro add_mono divide_right_mono mult_right_mono) simp_all
    also have "\<dots> \<le> 96 / 100 * real n" using n by simp
    also have "\<dots> \<le> real n - 1" using big by simp
    finally show ?thesis unfolding fl_95 .
  qed
qed

lemma p95_index:
  assumes "20 \<le> n"
  shows "max 0 (\<lceil>fl (fl (95 / 100) * real n)\<rceil> - 1) \<le> int n - 2"
proof -
  have "fl (fl (95 / 100) * real n) \<le> of_int (int n - 1)"
    using p95_product[OF assms] by simp
  then have "\<lceil>fl (fl (95 / 100) * real n)\<rceil> \<le> int n - 1" by (simp only: ceiling_le_iff)
  then show ?thesis using assms by simp
qed

lemma map_the_Some:
  "\<forall>x \<in> set xs. \<exists>v. f x = Some v \<Longrightarrow> map f xs = map Some (map (\<lambda>x. the (f x)) xs)"
  by (induction xs) auto

text \<open>
  C9. In a trajectory of at least 20 samples whose speeds are all at most 6 km/h except one
  sample at 50 km/h, \<^verbatim>\<open>percentile95Classify\<close> returns \<^verbatim>\<open>walking\<close> and
  \<^verbatim>\<open>baselineClassify\<close> returns \<^verbatim>\<open>bus-or-car\<close>.
\<close>

theorem percentile95_outlier_stable:
  assumes len: "20 \<le> length speedData"
      and k: "k < length speedData"
      and out: "speedKmh (speedData ! k) = Some 50"
      and rest: "\<forall>i < length speedData. i \<noteq> k \<longrightarrow>
                   (\<exists>v. speedKmh (speedData ! i) = Some v \<and> v \<le> 6)"
  shows "percentile95Classify speedData = ''walking'' \<and>
         baselineClassify speedData = ''bus-or-car''"
proof -
  define vs where "vs = map (\<lambda>x. the (speedKmh x)) speedData"
  have ne: "speedData \<noteq> []" using len by auto
  have all: "\<forall>x \<in> set speedData. \<exists>v. speedKmh x = Some v"
  proof
    fix x assume "x \<in> set speedData"
    then obtain i where i: "i < length speedData" "speedData ! i = x"
      by (auto simp: in_set_conv_nth)
    show "\<exists>v. speedKmh x = Some v"
    proof (cases "i = k")
      case True with out i show ?thesis by simp
    next
      case False with rest i show ?thesis by auto
    qed
  qed
  have m: "map speedKmh speedData = map Some vs"
    unfolding vs_def by (rule map_the_Some[OF all])
  have lvs: "length vs = length speedData" by (simp add: vs_def)
  have vk: "vs ! k = 50" using k out by (simp add: vs_def)
  have vrest: "\<forall>i < length vs. i \<noteq> k \<longrightarrow> vs ! i \<le> 6"
    using rest by (auto simp: vs_def)
  have kv: "k < length vs" using k lvs by simp
  have vne: "vs \<noteq> []" using ne lvs by auto
  \<comment> \<open>the maximum is the outlier\<close>
  have "Max (set vs) = 50"
  proof (rule Max_eqI)
    show "finite (set vs)" by simp
    show "50 \<in> set vs" using kv vk by (metis nth_mem)
    fix y assume "y \<in> set vs"
    then obtain i where i: "i < length vs" "vs ! i = y" by (auto simp: in_set_conv_nth)
    show "y \<le> 50"
    proof (cases "i = k")
      case True with vk i show ?thesis by simp
    next
      case False with vrest i have "y \<le> 6" by auto
      then show ?thesis by simp
    qed
  qed
  with classify_Num[OF ne m]
  have "Math_max (map to_num (map speedKmh speedData)) = Num 50" by simp
  from baselineClassify_Num[OF ne this]
  have base: "baselineClassify speedData = ''bus-or-car''" by simp
  \<comment> \<open>the 95th percentile lies below the outlier\<close>
  let ?j = "max 0 (\<lceil>fl (fl (95 / 100) * real (length vs))\<rceil> - 1)"
  have j: "0 \<le> ?j" "?j \<le> int (length vs) - 2"
    using p95_index[of "length vs"] len lvs by simp_all
  then have sj: "Suc (nat ?j) < length vs" by linarith
  have le6: "sort vs ! nat ?j \<le> 6"
    by (rule below_last_le_6[OF kv vrest _ sj]) (simp add: vk)
  have "?j < int (length vs)" using j(2) by linarith
  then have "percentile (map Some vs) 95 = Some (sort vs ! nat ?j)"
    by (rule percentile_at)
  then have "percentile (map speedKmh speedData) 95 = Some (sort vs ! nat ?j)"
    by (simp only: m)
  from percentile95Classify_Num[OF ne this] le6
  have "percentile95Classify speedData = ''walking''" by simp
  with base show ?thesis by simp
qed

theorem percentile95_outlier_stable_witness:
  "20 \<le> length (replicate 19 (kmhSample 5) @ [kmhSample 50]) \<and>
   speedKmh ((replicate 19 (kmhSample 5) @ [kmhSample 50]) ! 19) = Some 50 \<and>
   percentile95Classify (replicate 19 (kmhSample 5) @ [kmhSample 50]) = ''walking'' \<and>
   baselineClassify (replicate 19 (kmhSample 5) @ [kmhSample 50]) = ''bus-or-car''"
proof -
  let ?T = "replicate 19 (kmhSample 5) @ [kmhSample 50]"
  have len: "20 \<le> length ?T" by simp
  have k: "19 < length ?T" by simp
  have out: "speedKmh (?T ! 19) = Some 50" by (simp add: nth_append)
  have rest: "\<forall>i < length ?T. i \<noteq> 19 \<longrightarrow> (\<exists>v. speedKmh (?T ! i) = Some v \<and> v \<le> 6)"
    by (simp add: nth_append)
  from percentile95_outlier_stable[OF len k out rest] len out
  show ?thesis by blast
qed

subsection \<open>Stop detection\<close>

lemma findStops_loop_0: "findStops_loop points thr 0 = ([], None)"
  by (simp add: findStops_loop_def)

lemma findStops_loop_Suc:
  "findStops_loop points thr (Suc n) = findStops_step points thr n (findStops_loop points thr n)"
  by (simp add: findStops_loop_def)








text \<open>A stop is reported exactly when some sample is below the threshold.\<close>

lemma findStops_loop_detects:
  "(fst (findStops_loop points thr n) \<noteq> [] \<or> snd (findStops_loop points thr n) \<noteq> None)
     \<longleftrightarrow> (\<exists>i < n. sampleSpeed (points ! i) < thr)"
proof (induction n)
  case 0
  show ?case by (simp add: findStops_loop_0)
next
  case (Suc n)
  obtain stops stopStart where l: "findStops_loop points thr n = (stops, stopStart)"
    by (cases "findStops_loop points thr n")
  have ex: "(\<exists>i < Suc n. sampleSpeed (points ! i) < thr)
             \<longleftrightarrow> (\<exists>i < n. sampleSpeed (points ! i) < thr) \<or> sampleSpeed (points ! n) < thr"
    by (auto simp: less_Suc_eq)
  show ?case
    using Suc unfolding ex findStops_loop_Suc l
    by (cases stopStart) (auto simp: findStops_step_def)
qed

lemma findStops_detects:
  "findStops points thr \<noteq> [] \<longleftrightarrow> (\<exists>i < length points. sampleSpeed (points ! i) < thr)"
proof -
  obtain stops stopStart where l: "findStops_loop points thr (length points) = (stops, stopStart)"
    by (cases "findStops_loop points thr (length points)")
  have "findStops points thr \<noteq> [] \<longleftrightarrow> (stops \<noteq> [] \<or> stopStart \<noteq> None)"
    by (cases stopStart) (simp_all add: findStops_def l Let_def)
  then show ?thesis
    using findStops_loop_detects[of points thr "length points"] by (simp add: l)
qed

lemma sampleSpeed_kmhSample [simp]: "sampleSpeed (kmhSample v) = v / 3.6"
  by (simp add: sampleSpeed_def kmhSample_def)




subsection \<open>Samples with \<^verbatim>\<open>speed\<close> but no \<^verbatim>\<open>speedKmh\<close>\<close>

lemma map_const_None:
  "\<forall>p \<in> set xs. f p = None \<Longrightarrow> map f xs = replicate (length xs) None"
  by (induction xs) simp_all

lemma map_filter_id_None: "List.map_filter id (replicate n None) = []"
  by (induction n) (simp_all add: List.map_filter_simps)

lemma js_sort_None: "js_sort (replicate n None) = replicate n None"
  by (simp add: js_sort_def map_filter_id_None)

lemma js_index_None: "js_index (replicate n None) i = None"
proof (cases "0 \<le> i \<and> i < int n")
  case True
  then have "nat i < n" by linarith
  then show ?thesis by (simp add: js_index_def)
next
  case False
  then show ?thesis unfolding js_index_def length_replicate by (simp only: if_False)
qed

lemma percentile_None: "percentile (replicate n None) p = None"
  by (simp add: percentile_def percentile_run_def Let_def js_sort_None js_index_None)

lemma baselineClassify_NaN:
  assumes "speedData \<noteq> []" "Math_max (map to_num (map speedKmh speedData)) = NaN"
  shows "baselineClassify speedData = ''unknown''"
  unfolding baselineClassify_def Let_def assms(2) using assms(1) by simp

lemma baselineClassify_no_speedKmh:
  assumes "speedData \<noteq> []" "\<forall>p \<in> set speedData. speedKmh p = None"
  shows "baselineClassify speedData = ''unknown''"
proof -
  obtain p rest where sd: "speedData = p # rest" using assms(1) by (cases speedData) auto
  have "NaN \<in> set (map to_num (map speedKmh speedData))"
    using assms(2) by (simp add: sd)
  then have "Math_max (map to_num (map speedKmh speedData)) = NaN" by (rule Math_max_NaN)
  then show ?thesis by (rule baselineClassify_NaN[OF assms(1)])
qed

lemma percentile95Classify_no_speedKmh:
  assumes "speedData \<noteq> []" "\<forall>p \<in> set speedData. speedKmh p = None"
  shows "percentile95Classify speedData = ''unknown''"
proof -
  have "percentile (map speedKmh speedData) 95 = None"
    by (simp only: map_const_None[OF assms(2)] percentile_None)
  then show ?thesis
    unfolding percentile95Classify_def Let_def using assms(1) by simp
qed

lemma sampleSpeed_speed: "speed p = Some v \<Longrightarrow> sampleSpeed p = v"
  by (simp add: sampleSpeed_def)

text \<open>
  C10. On a non-empty trajectory whose samples carry \<^verbatim>\<open>speed\<close> (m/s) and no
  \<^verbatim>\<open>speedKmh\<close>, \<^verbatim>\<open>baselineClassify\<close> and \<^verbatim>\<open>percentile95Classify\<close> both return
  \<^verbatim>\<open>unknown\<close>, while \<^verbatim>\<open>findStops\<close> reads the \<^verbatim>\<open>speed\<close> field: it reports a stop
  exactly when some sample's \<^verbatim>\<open>speed\<close> is below the threshold.
\<close>

theorem speed_only_trajectory:
  assumes "speedData \<noteq> []"
      and "\<forall>p \<in> set speedData. speedKmh p = None \<and> speed p \<noteq> None"
  shows "baselineClassify speedData = ''unknown'' \<and>
         percentile95Classify speedData = ''unknown'' \<and>
         (findStops speedData thr \<noteq> [] \<longleftrightarrow>
            (\<exists>p \<in> set speedData. \<exists>v. speed p = Some v \<and> v < thr))"
proof (intro conjI)
  have none: "\<forall>p \<in> set speedData. speedKmh p = None" using assms(2) by simp
  show "baselineClassify speedData = ''unknown''"
    by (rule baselineClassify_no_speedKmh[OF assms(1) none])
  show "percentile95Classify speedData = ''unknown''"
    by (rule percentile95Classify_no_speedKmh[OF assms(1) none])
  have "(\<exists>i < length speedData. sampleSpeed (speedData ! i) < thr)
          \<longleftrightarrow> (\<exists>p \<in> set speedData. sampleSpeed p < thr)"
    by (metis in_set_conv_nth)
  also have "\<dots> \<longleftrightarrow> (\<exists>p \<in> set speedData. \<exists>v. speed p = Some v \<and> v < thr)"
  proof (rule bex_cong[OF refl])
    fix p assume "p \<in> set speedData"
    then obtain v where v: "speed p = Some v" using assms(2) by auto
    then show "sampleSpeed p < thr \<longleftrightarrow> (\<exists>v. speed p = Some v \<and> v < thr)"
      by (simp add: sampleSpeed_speed)
  qed
  finally show "findStops speedData thr \<noteq> [] \<longleftrightarrow>
            (\<exists>p \<in> set speedData. \<exists>v. speed p = Some v \<and> v < thr)"
    by (simp only: findStops_detects)
qed

theorem speed_only_trajectory_witness:
  "baselineClassify [msSample 0, msSample 10] = ''unknown'' \<and>
   percentile95Classify [msSample 0, msSample 10] = ''unknown'' \<and>
   findStops [msSample 0, msSample 10] 0.5 \<noteq> []"
  using speed_only_trajectory [of "[msSample 0, msSample 10]" "0.5"]
  by (simp add: msSample_def)

subsection \<open>Great-circle distance\<close>






subsection \<open>Stop-pattern classifier\<close>






text \<open>The guard, and the answer without a stop.\<close>

lemma stopPatternClassify_outside_Num:
  assumes "gpsData \<noteq> []" "Math_max (map to_num (map speedKmh gpsData)) = Num m"
      and "m < 25 \<or> 80 < m"
  shows "stopPatternClassify gpsData = None"
  unfolding stopPatternClassify_def Let_def assms(2) using assms(1,3)
  by (simp add: js_gt_def)

lemma stopPatternClassify_no_stop:
  assumes "gpsData \<noteq> []" "Math_max (map to_num (map speedKmh gpsData)) = Num m"
      and "25 \<le> m" "m \<le> 80" "findStops gpsData 0.5 = []"
  shows "stopPatternClassify gpsData = Some ''car''"
  unfolding stopPatternClassify_def Let_def assms(2) using assms(1,3,4,5)
  by (simp add: js_gt_def)






text \<open>Outside the closed interval from 25 to 80 the classifier declines.\<close>

lemma stopPatternClassify_outside:
  assumes "gpsData \<noteq> []" "map speedKmh gpsData = map Some vs"
      and "Max (set vs) < 25 \<or> 80 < Max (set vs)"
  shows "stopPatternClassify gpsData = None"
  by (rule stopPatternClassify_outside_Num[OF assms(1) classify_Num[OF assms(1,2)] assms(3)])

lemma findStops_single_moving:
  "\<not> sampleSpeed p < thr \<Longrightarrow> findStops [p] thr = []"
  by (simp add: findStops_def findStops_loop_def findStops_step_def)

text \<open>
  C2. The claim asks for \<^verbatim>\<open>null\<close> whenever the maximum speed is below 25 or at least 80.
  At a maximum of exactly 80 km/h the guard \<^verbatim>\<open>maxSpeed > 80\<close> does not fire: the
  single-sample trajectory at 80 km/h is classified \<^verbatim>\<open>car\<close>, although
  \<^verbatim>\<open>baselineClassify\<close> places the same trajectory in the \<^verbatim>\<open>train\<close> bucket.
\<close>

theorem stopPatternClassify_at_80:
  "stopPatternClassify [kmhSample 80] = Some ''car'' \<and>
   baselineClassify [kmhSample 80] = ''train''"
proof
  have ne: "[kmhSample 80] \<noteq> []" by simp
  have m: "Math_max (map to_num (map speedKmh [kmhSample 80])) = Num 80"
    by (simp add: Math_max_def)
  have "findStops [kmhSample 80] 0.5 = []"
    by (rule findStops_single_moving) simp
  then show "stopPatternClassify [kmhSample 80] = Some ''car''"
    by (intro stopPatternClassify_no_stop[OF ne m]) simp_all
  show "baselineClassify [kmhSample 80] = ''train''"
    using baselineClassify_Num[OF ne m] by simp
qed








text \<open>Three samples 0.01 degrees of latitude apart (about 1.1 km each) with a halt at the
  second, and the same 0.001 degrees apart: one stop on more than a kilometre, and one stop
  on less.\<close>

lemma speedKmh_placedSample [simp]: "speedKmh (placedSample lat v) = Some v"
  by (simp add: placedSample_def)

lemma latitude_placedSample [simp]: "latitude (placedSample lat v) = Some lat"
  by (simp add: placedSample_def)

lemma longitude_placedSample [simp]: "longitude (placedSample lat v) = Some 0"
  by (simp add: placedSample_def)

lemma sampleSpeed_placedSample [simp]: "sampleSpeed (placedSample lat v) = v / 3.6"
  by (simp add: sampleSpeed_def placedSample_def)


lemma placed_coordinates_1:
  assumes "- 90 \<le> a" "a \<le> 90"
  shows "\<forall>p \<in> set [placedSample a u].
           \<exists>lat lng. latitude p = Some lat \<and> longitude p = Some lng \<and> - 90 \<le> lat \<and> lat \<le> 90"
  using assms by simp





subsection \<open>Heading changes\<close>

lemma norm_down_le_pi: "norm_down c \<le> pi"
proof (induction c rule: norm_down.induct)
  case (1 c)
  show ?case
  proof (cases "c > pi")
    case True
    with 1 show ?thesis by (subst norm_down.simps) simp
  next
    case False
    then show ?thesis by (subst norm_down.simps) simp
  qed
qed

lemma norm_down_id: "c \<le> pi \<Longrightarrow> norm_down c = c"
  by (subst norm_down.simps) simp

lemma norm_down_shift: "\<exists>k::int. norm_down c = c + 2 * pi * of_int k"
proof (induction c rule: norm_down.induct)
  case (1 c)
  show ?case
  proof (cases "c > pi")
    case True
    with 1 obtain k :: int where "norm_down (c - 2 * pi) = c - 2 * pi + 2 * pi * of_int k"
      by blast
    then have "norm_down c = c + 2 * pi * of_int (k - 1)"
      using True by (subst norm_down.simps) (simp add: algebra_simps)
    then show ?thesis by blast
  next
    case False
    then have "norm_down c = c + 2 * pi * of_int 0" by (simp add: norm_down_id)
    then show ?thesis by blast
  qed
qed

lemma norm_up_ge: "- pi \<le> norm_up c"
proof (induction c rule: norm_up.induct)
  case (1 c)
  show ?case
  proof (cases "c < - pi")
    case True
    with 1 show ?thesis by (subst norm_up.simps) simp
  next
    case False
    then show ?thesis by (subst norm_up.simps) simp
  qed
qed

lemma norm_up_le: "c \<le> pi \<Longrightarrow> norm_up c \<le> pi"
proof (induction c rule: norm_up.induct)
  case (1 c)
  show ?case
  proof (cases "c < - pi")
    case True
    then have "c + 2 * pi \<le> pi" by simp
    with 1 True show ?thesis by (subst norm_up.simps) simp
  next
    case False
    with 1 show ?thesis by (subst norm_up.simps) simp
  qed
qed

lemma norm_up_id: "- pi \<le> c \<Longrightarrow> norm_up c = c"
  by (subst norm_up.simps) simp

lemma norm_up_shift: "\<exists>k::int. norm_up c = c + 2 * pi * of_int k"
proof (induction c rule: norm_up.induct)
  case (1 c)
  show ?case
  proof (cases "c < - pi")
    case True
    with 1 obtain k :: int where "norm_up (c + 2 * pi) = c + 2 * pi + 2 * pi * of_int k"
      by blast
    then have "norm_up c = c + 2 * pi * of_int (k + 1)"
      using True by (subst norm_up.simps) (simp add: algebra_simps)
    then show ?thesis by blast
  next
    case False
    then have "norm_up c = c + 2 * pi * of_int 0" by (simp add: norm_up_id)
    then show ?thesis by blast
  qed
qed

text \<open>The two loops together bring any difference into \<open>[-\<pi>, \<pi>]\<close> by a whole number of
  turns.\<close>

lemma normalised_range: "- pi \<le> norm_up (norm_down c) \<and> norm_up (norm_down c) \<le> pi"
  using norm_up_ge norm_up_le[OF norm_down_le_pi] by blast

lemma normalised_shift: "\<exists>k::int. norm_up (norm_down c) = c + 2 * pi * of_int k"
proof -
  obtain j :: int where j: "norm_down c = c + 2 * pi * of_int j"
    using norm_down_shift by blast
  obtain i :: int where i: "norm_up (norm_down c) = norm_down c + 2 * pi * of_int i"
    using norm_up_shift by blast
  have "norm_up (norm_down c) = norm_down c + 2 * pi * of_int i" by (rule i)
  also have "\<dots> = c + 2 * pi * of_int j + 2 * pi * of_int i" by (simp only: j)
  also have "\<dots> = c + 2 * pi * of_int (j + i)" by (simp add: algebra_simps)
  finally show ?thesis by blast
qed

text \<open>A value in \<open>[-\<pi>, \<pi>]\<close> is the representative of least absolute value.\<close>

lemma shorter_arc:
  fixes d :: real and m :: int
  assumes "- pi \<le> d" "d \<le> pi"
  shows "\<bar>d\<bar> \<le> \<bar>d + 2 * pi * of_int m\<bar>"
proof -
  have e: "2 * pi * of_int m = 2 * (pi * real_of_int m)" by simp
  consider "m = 0" | "1 \<le> m" | "m \<le> - 1" by linarith
  then show ?thesis
  proof cases
    case 1
    then show ?thesis by simp
  next
    case 2
    then have "(1::real) \<le> of_int m" by simp
    then have "pi * 1 \<le> pi * of_int m"
      by (intro mult_left_mono) simp_all
    then have "pi \<le> d + 2 * (pi * of_int m)" using assms(1) by linarith
    then show ?thesis unfolding e using assms by linarith
  next
    case 3
    then have "of_int m \<le> (- 1::real)" by (metis of_int_le_iff of_int_minus of_int_1)
    then have "pi * of_int m \<le> pi * (- 1)"
      by (intro mult_left_mono) simp_all
    then have "d + 2 * (pi * of_int m) \<le> - pi" using assms(2) by linarith
    then show ?thesis unfolding e using assms by linarith
  qed
qed

lemma headingChange_Some:
  assumes "heading prev = Some h0" "heading cur = Some h1"
  shows "headingChange prev cur = Num \<bar>norm_up (norm_down (h1 - h0))\<bar>"
  using assms by (simp add: headingChange_def js_sub_def)

lemma headingChange_arc:
  assumes "heading prev = Some h0" "heading cur = Some h1"
  shows "\<exists>d. headingChange prev cur = Num d \<and> 0 \<le> d \<and> d \<le> pi \<and>
           (\<exists>k::int. d = \<bar>h1 - h0 + 2 * pi * of_int k\<bar>) \<and>
           (\<forall>k::int. d \<le> \<bar>h1 - h0 + 2 * pi * of_int k\<bar>)"
proof -
  let ?n = "norm_up (norm_down (h1 - h0))"
  have rng: "- pi \<le> ?n" "?n \<le> pi" using normalised_range by blast+
  obtain j :: int where j: "?n = h1 - h0 + 2 * pi * of_int j"
    using normalised_shift by blast
  have min: "\<bar>?n\<bar> \<le> \<bar>h1 - h0 + 2 * pi * of_int k\<bar>" for k :: int
  proof -
    have "h1 - h0 + 2 * pi * of_int k = ?n + 2 * pi * of_int (k - j)"
      unfolding j by (simp add: algebra_simps)
    then show ?thesis using shorter_arc[OF rng, of "k - j"] by simp
  qed
  have "\<bar>?n\<bar> \<le> pi" using rng by linarith
  moreover have "\<exists>k::int. \<bar>?n\<bar> = \<bar>h1 - h0 + 2 * pi * of_int k\<bar>" using j by metis
  ultimately show ?thesis
    using headingChange_Some[OF assms] min by auto
qed

text \<open>For a difference of two headings in \<open>[0, 2\<pi>)\<close> each loop runs at most once.\<close>

lemma normalised_once:
  assumes "- (2 * pi) < c" "c < 2 * pi"
  shows "norm_up (norm_down c) = (if c > pi then c - 2 * pi else if c < - pi then c + 2 * pi else c)"
proof (cases "c > pi")
  case True
  then have "norm_down c = norm_down (c - 2 * pi)" by (subst norm_down.simps) simp
  also have "\<dots> = c - 2 * pi"
  proof (rule norm_down_id)
    show "c - 2 * pi \<le> pi" using assms(2) pi_gt_zero by linarith
  qed
  finally have "norm_down c = c - 2 * pi" .
  moreover have "- pi \<le> c - 2 * pi" using True by simp
  ultimately show ?thesis using True by (simp add: norm_up_id)
next
  case False
  then have d: "norm_down c = c" by (simp add: norm_down_id)
  show ?thesis
  proof (cases "c < - pi")
    case True
    then have "norm_up c = norm_up (c + 2 * pi)" by (subst norm_up.simps) simp
    also have "\<dots> = c + 2 * pi"
  proof (rule norm_up_id)
    show "- pi \<le> c + 2 * pi" using assms(1) pi_gt_zero by linarith
  qed
    finally show ?thesis using True False by (simp add: d)
  next
    case False
    with \<open>\<not> c > pi\<close> show ?thesis by (simp add: d norm_up_id)
  qed
qed

lemma headingChange_closed:
  assumes "heading prev = Some h0" "heading cur = Some h1"
      and "0 \<le> h0" "h0 < 2 * pi" "0 \<le> h1" "h1 < 2 * pi"
  shows "headingChange prev cur =
           Num (if \<bar>h1 - h0\<bar> \<le> pi then \<bar>h1 - h0\<bar> else 2 * pi - \<bar>h1 - h0\<bar>)"
proof -
  have b: "- (2 * pi) < h1 - h0" "h1 - h0 < 2 * pi" using assms(3-6) by linarith+
  show ?thesis
    unfolding headingChange_Some[OF assms(1,2)] normalised_once[OF b]
    using b by (auto simp: abs_if)
qed

lemma calculateHeadingChanges_length:
  "length (calculateHeadingChanges points) = length points - 1"
  by (simp add: calculateHeadingChanges_def)

lemma calculateHeadingChanges_nth:
  assumes "i < length points - 1"
  shows "calculateHeadingChanges points ! i = headingChange (points ! i) (points ! Suc i)"
  using assms by (simp add: calculateHeadingChanges_def)

text \<open>
  C8. When every sample carries a heading, a number in \<open>[0, 2\<pi>)\<close>,
  \<^verbatim>\<open>calculateHeadingChanges\<close> returns \<open>length points - 1\<close> numbers (none for at most one
  sample), each in \<open>[0, \<pi>]\<close> and each the shorter-arc distance between the two consecutive
  headings: the absolute difference \<open>\<delta>\<close> if that is at most \<open>\<pi>\<close> and \<open>2\<pi> - \<delta>\<close> otherwise,
  which is the least absolute value of the difference taken modulo whole turns.
\<close>

theorem calculateHeadingChanges_arcs:
  assumes "\<forall>p \<in> set points. \<exists>h. heading p = Some h \<and> 0 \<le> h \<and> h < 2 * pi"
  shows "length (calculateHeadingChanges points) = length points - 1 \<and>
         (\<forall>i < length points - 1.
            \<exists>d. calculateHeadingChanges points ! i = Num d \<and> 0 \<le> d \<and> d \<le> pi \<and>
              d = (if \<bar>the (heading (points ! Suc i)) - the (heading (points ! i))\<bar> \<le> pi
                   then \<bar>the (heading (points ! Suc i)) - the (heading (points ! i))\<bar>
                   else 2 * pi - \<bar>the (heading (points ! Suc i)) - the (heading (points ! i))\<bar>) \<and>
              (\<exists>k::int. d = \<bar>the (heading (points ! Suc i)) - the (heading (points ! i))
                                + 2 * pi * of_int k\<bar>) \<and>
              (\<forall>k::int. d \<le> \<bar>the (heading (points ! Suc i)) - the (heading (points ! i))
                                + 2 * pi * of_int k\<bar>))"
proof (intro conjI allI impI)
  show "length (calculateHeadingChanges points) = length points - 1"
    by (rule calculateHeadingChanges_length)
next
  fix i assume i: "i < length points - 1"
  then have "points ! i \<in> set points" "points ! Suc i \<in> set points" by simp_all
  then obtain h0 h1 where h: "heading (points ! i) = Some h0" "heading (points ! Suc i) = Some h1"
    and b: "0 \<le> h0" "h0 < 2 * pi" "0 \<le> h1" "h1 < 2 * pi"
    using assms by blast
  from headingChange_arc[OF h] obtain d where
    d: "headingChange (points ! i) (points ! Suc i) = Num d" "0 \<le> d" "d \<le> pi"
       "\<exists>k::int. d = \<bar>h1 - h0 + 2 * pi * of_int k\<bar>"
       "\<forall>k::int. d \<le> \<bar>h1 - h0 + 2 * pi * of_int k\<bar>"
    by blast
  from headingChange_closed[OF h b] d(1)
  have c: "d = (if \<bar>h1 - h0\<bar> \<le> pi then \<bar>h1 - h0\<bar> else 2 * pi - \<bar>h1 - h0\<bar>)" by simp
  show "\<exists>d. calculateHeadingChanges points ! i = Num d \<and> 0 \<le> d \<and> d \<le> pi \<and>
              d = (if \<bar>the (heading (points ! Suc i)) - the (heading (points ! i))\<bar> \<le> pi
                   then \<bar>the (heading (points ! Suc i)) - the (heading (points ! i))\<bar>
                   else 2 * pi - \<bar>the (heading (points ! Suc i)) - the (heading (points ! i))\<bar>) \<and>
              (\<exists>k::int. d = \<bar>the (heading (points ! Suc i)) - the (heading (points ! i))
                                + 2 * pi * of_int k\<bar>) \<and>
              (\<forall>k::int. d \<le> \<bar>the (heading (points ! Suc i)) - the (heading (points ! i))
                                + 2 * pi * of_int k\<bar>)"
    unfolding calculateHeadingChanges_nth[OF i] h option.sel
    using d c by blast
qed

lemma heading_headingSample [simp]: "heading (headingSample h) = Some h"
  by (simp add: headingSample_def)

theorem calculateHeadingChanges_arcs_witness:
  "calculateHeadingChanges [headingSample 0, headingSample 1, headingSample 0] = [Num 1, Num 1]"
proof -
  let ?T = "[headingSample 0, headingSample 1, headingSample 0]"
  have h: "\<forall>p \<in> set ?T. \<exists>h. heading p = Some h \<and> 0 \<le> h \<and> h < 2 * pi"
    using pi_ge_two by simp
  have l: "length (calculateHeadingChanges ?T) = 2"
    using calculateHeadingChanges_arcs[OF h] by simp
  have i0: "(0::nat) < length ?T - 1" and i1: "(1::nat) < length ?T - 1" by simp_all
  from calculateHeadingChanges_arcs[OF h] i0
  have "calculateHeadingChanges ?T ! 0 = Num 1" using pi_ge_two by auto
  moreover from calculateHeadingChanges_arcs[OF h] i1
  have "calculateHeadingChanges ?T ! 1 = Num 1" using pi_ge_two by auto
  ultimately show ?thesis using l
    by (metis (no_types, lifting) One_nat_def length_0_conv length_Suc_conv nth_Cons_0
        nth_Cons_Suc numeral_2_eq_2)
qed

subsection \<open>Heading-change classifier\<close>

lemma foldl_js_add_Num: "foldl js_add (Num a) (map Num xs) = Num (a + sum_list xs)"
  by (induction xs arbitrary: a) (simp_all add: add.assoc)




















lemma heading_kmhSample [simp]: "heading (kmhSample v) = None"
  by (simp add: kmhSample_def)



subsection \<open>Confusion matrix\<close>

lemma distinct_modes: "distinct modes"
  by (simp add: modes_def)

lemma map_of_keyed:
  "k \<in> set ks \<Longrightarrow> map_of (map (\<lambda>a. (a, f a)) ks) k = Some (f k)"
  by (induction ks) auto

lemma map_of_keyed_None:
  "k \<notin> set ks \<Longrightarrow> map_of (map (\<lambda>a. (a, f a)) ks) k = None"
  by (induction ks) auto

lemma update_keyed:
  "k \<in> set ks \<Longrightarrow> distinct ks \<Longrightarrow>
     AList.update k v (map (\<lambda>a. (a, f a)) ks) = map (\<lambda>a. (a, if a = k then v else f a)) ks"
proof (induction ks)
  case Nil
  then show ?case by simp
next
  case (Cons x ks)
  show ?case
  proof (cases "x = k")
    case True
    then have "k \<notin> set ks" using Cons.prems by simp
    then have "map (\<lambda>a. (a, if a = k then v else f a)) ks = map (\<lambda>a. (a, f a)) ks"
      by (intro map_cong) auto
    with True show ?thesis by simp
  next
    case False
    with Cons show ?thesis by simp
  qed
qed

lemma initMatrix_matrixOf: "initMatrix = matrixOf (\<lambda>a p. 0)"
  by (simp add: initMatrix_def matrixOf_def)

lemma cell_matrixOf:
  "a \<in> set modes \<Longrightarrow> p \<in> set modes \<Longrightarrow> cell (matrixOf cnt) a p = Some (Num (real (cnt a p)))"
  by (simp add: cell_def matrixOf_def map_of_keyed)

text \<open>One counted in-vocabulary pair adds one to its cell and leaves the others alone.\<close>

lemma countPrediction_matrixOf:
  assumes "a \<in> set modes" "p \<in> set modes"
  shows "countPrediction (matrixOf cnt) (labelled a p) =
           Returns (matrixOf (\<lambda>x y. if x = a \<and> y = p then cnt x y + 1 else cnt x y))"
proof -
  have ne: "a \<noteq> []" "p \<noteq> []" using assms by (auto simp: modes_def)
  let ?row = "\<lambda>x. map (\<lambda>y. (y, Num (real (cnt x y)))) modes"
  have row: "map_of (matrixOf cnt) a = Some (?row a)"
    unfolding matrixOf_def by (rule map_of_keyed[OF assms(1)])
  have old: "map_of (?row a) p = Some (Num (real (cnt a p)))"
    by (rule map_of_keyed[OF assms(2)])
  have row': "AList.update p (Num (real (cnt a p) + 1)) (?row a)
              = map (\<lambda>y. (y, Num (real (if y = p then cnt a y + 1 else cnt a y)))) modes"
    unfolding update_keyed[OF assms(2) distinct_modes]
    by (intro map_cong) (auto simp: add.commute)
  have "AList.update a (map (\<lambda>y. (y, Num (real (if y = p then cnt a y + 1 else cnt a y)))) modes)
          (matrixOf cnt)
        = matrixOf (\<lambda>x y. if x = a \<and> y = p then cnt x y + 1 else cnt x y)"
    unfolding matrixOf_def update_keyed[OF assms(1) distinct_modes]
    by (intro map_cong) auto
  moreover have "countPrediction (matrixOf cnt) (labelled a p) =
      Returns (AList.update a (AList.update p (Num (real (cnt a p) + 1)) (?row a)) (matrixOf cnt))"
    using ne by (simp add: countPrediction_def labelled_def truthy_def row old Let_def)
  ultimately show ?thesis by (simp only: row')
qed

lemma countPrediction_skipped:
  assumes "\<not> counted pr"
  shows "countPrediction m pr = Returns m"
proof -
  have c: "\<not> (truthy (actual pr) \<and> truthy (predicted pr))"
    using assms by (simp add: counted_def)
  show ?thesis unfolding countPrediction_def by (rule if_not_P[OF c])
qed

lemma counted_labelled:
  assumes "counted pr"
  shows "\<exists>a p. pr = labelled a p \<and> a \<noteq> [] \<and> p \<noteq> []"
proof -
  from assms obtain a p where "actual pr = Some a" "predicted pr = Some p" "a \<noteq> []" "p \<noteq> []"
    by (auto simp: counted_def truthy_def split: option.splits)
  then have "pr = labelled a p" by (simp add: labelled_def)
  with \<open>a \<noteq> []\<close> \<open>p \<noteq> []\<close> show ?thesis by blast
qed

lemma occurrences_Nil: "occurrences [] a p = 0"
  by (simp add: occurrences_def)

lemma occurrences_skipped:
  "\<not> counted pr \<Longrightarrow> occurrences (pr # preds) a p = occurrences preds a p"
  by (simp add: occurrences_def)

lemma occurrences_labelled:
  "a0 \<noteq> [] \<Longrightarrow> p0 \<noteq> [] \<Longrightarrow>
   occurrences (labelled a0 p0 # preds) a p =
     (if a = a0 \<and> p = p0 then occurrences preds a p + 1 else occurrences preds a p)"
  by (auto simp: occurrences_def labelled_def counted_def truthy_def)

text \<open>The loop over the pairs, from any matrix of counts.\<close>

lemma countPredictions_matrixOf:
  assumes "\<forall>pr \<in> set preds. counted pr \<longrightarrow>
             (\<exists>a \<in> set modes. \<exists>p \<in> set modes. pr = labelled a p)"
  shows "countPredictions (matrixOf cnt) preds =
           Returns (matrixOf (\<lambda>a p. cnt a p + occurrences preds a p))"
  using assms
proof (induction preds arbitrary: cnt)
  case Nil
  show ?case by (simp add: occurrences_Nil)
next
  case (Cons pr preds)
  then have rest: "\<forall>pr \<in> set preds. counted pr \<longrightarrow>
             (\<exists>a \<in> set modes. \<exists>p \<in> set modes. pr = labelled a p)" by simp
  show ?case
  proof (cases "counted pr")
    case False
    then show ?thesis
      using Cons.IH[OF rest, of cnt]
      by (simp add: countPrediction_skipped occurrences_skipped)
  next
    case True
    then obtain a p where ap: "a \<in> set modes" "p \<in> set modes" "pr = labelled a p"
      using Cons.prems by auto
    have ne: "a \<noteq> []" "p \<noteq> []" using ap by (auto simp: modes_def)
    have "(\<lambda>x y. (if x = a \<and> y = p then cnt x y + 1 else cnt x y) + occurrences preds x y)
          = (\<lambda>x y. cnt x y + occurrences (pr # preds) x y)"
      by (intro ext) (simp add: ap(3) occurrences_labelled[OF ne])
    then show ?thesis
      using Cons.IH[OF rest, of "\<lambda>x y. if x = a \<and> y = p then cnt x y + 1 else cnt x y"]
      by (simp add: ap(3) countPrediction_matrixOf[OF ap(1,2)])
  qed
qed

text \<open>The sum of the cells.\<close>

lemma sum_list_rows:
  fixes xss :: "real list list"
  shows "sum_list (concat xss) = sum_list (map sum_list xss)"
  by (induction xss) simp_all

lemma cellSum_matrixOf: "cellSum (matrixOf cnt) = Num (gridTotal cnt)"
proof -
  have "concat (map (\<lambda>(a, r). map snd r) (matrixOf cnt))
        = map Num (concat (map (\<lambda>a. map (\<lambda>p. real (cnt a p)) modes) modes))"
    by (simp add: matrixOf_def map_concat comp_def)
  then show ?thesis
    by (simp add: cellSum_def foldl_js_add_Num gridTotal_def sum_list_rows comp_def)
qed

lemma map_if_notin:
  "k \<notin> set ks \<Longrightarrow> map (\<lambda>x. if x = k then h x else g x) ks = map g ks"
  by (induction ks) auto

lemma sum_list_bump:
  fixes g :: "'a \<Rightarrow> real"
  shows "k \<in> set ks \<Longrightarrow> distinct ks \<Longrightarrow>
     sum_list (map (\<lambda>x. if x = k then g x + 1 else g x) ks) = sum_list (map g ks) + 1"
proof (induction ks)
  case Nil
  then show ?case by simp
next
  case (Cons x ks)
  show ?case
  proof (cases "x = k")
    case True
    then have "k \<notin> set ks" using Cons.prems by simp
    then show ?thesis using True by (simp add: map_if_notin)
  next
    case False
    with Cons show ?thesis by simp
  qed
qed

lemma gridTotal_bump:
  assumes "a \<in> set modes" "p \<in> set modes"
  shows "gridTotal (\<lambda>x y. if x = a \<and> y = p then cnt x y + 1 else cnt x y) = gridTotal cnt + 1"
proof -
  let ?rowsum = "\<lambda>x. sum_list (map (\<lambda>y. real (cnt x y)) modes)"
  have "(\<lambda>x. sum_list (map (\<lambda>y. real (if x = a \<and> y = p then cnt x y + 1 else cnt x y)) modes))
        = (\<lambda>x. if x = a then ?rowsum x + 1 else ?rowsum x)"
  proof (rule ext)
    fix x
    show "sum_list (map (\<lambda>y. real (if x = a \<and> y = p then cnt x y + 1 else cnt x y)) modes)
          = (if x = a then ?rowsum x + 1 else ?rowsum x)"
    proof (cases "x = a")
      case True
      have "(\<lambda>y. real (if x = a \<and> y = p then cnt x y + 1 else cnt x y))
            = (\<lambda>y. if y = p then real (cnt x y) + 1 else real (cnt x y))"
        using True by (intro ext) simp
      then have "sum_list (map (\<lambda>y. real (if x = a \<and> y = p then cnt x y + 1 else cnt x y)) modes)
            = sum_list (map (\<lambda>y. if y = p then real (cnt x y) + 1 else real (cnt x y)) modes)"
        by (simp only:)
      also have "\<dots> = ?rowsum x + 1"
        by (rule sum_list_bump[OF assms(2) distinct_modes])
      finally show ?thesis using True by simp
    next
      case False
      then show ?thesis by simp
    qed
  qed
  then have "gridTotal (\<lambda>x y. if x = a \<and> y = p then cnt x y + 1 else cnt x y)
        = sum_list (map (\<lambda>x. if x = a then ?rowsum x + 1 else ?rowsum x) modes)"
    unfolding gridTotal_def by (simp only:)
  also have "\<dots> = sum_list (map ?rowsum modes) + 1"
    by (rule sum_list_bump[OF assms(1) distinct_modes])
  finally show ?thesis by (simp only: gridTotal_def)
qed

lemma gridTotal_occurrences:
  assumes "\<forall>pr \<in> set preds. counted pr \<longrightarrow>
             (\<exists>a \<in> set modes. \<exists>p \<in> set modes. pr = labelled a p)"
  shows "gridTotal (\<lambda>a p. cnt a p + occurrences preds a p)
           = gridTotal cnt + real (length (filter counted preds))"
  using assms
proof (induction preds arbitrary: cnt)
  case Nil
  show ?case by (simp add: occurrences_Nil)
next
  case (Cons pr preds)
  then have rest: "\<forall>pr \<in> set preds. counted pr \<longrightarrow>
             (\<exists>a \<in> set modes. \<exists>p \<in> set modes. pr = labelled a p)" by simp
  show ?case
  proof (cases "counted pr")
    case False
    then show ?thesis
      using Cons.IH[OF rest, of cnt] by (simp add: occurrences_skipped)
  next
    case True
    then obtain a p where ap: "a \<in> set modes" "p \<in> set modes" "pr = labelled a p"
      using Cons.prems by auto
    have ne: "a \<noteq> []" "p \<noteq> []" using ap by (auto simp: modes_def)
    have eq: "(\<lambda>x y. cnt x y + occurrences (pr # preds) x y)
          = (\<lambda>x y. (if x = a \<and> y = p then cnt x y + 1 else cnt x y) + occurrences preds x y)"
      by (intro ext) (simp add: ap(3) occurrences_labelled[OF ne])
    show ?thesis
      unfolding eq
      using Cons.IH[OF rest, of "\<lambda>x y. if x = a \<and> y = p then cnt x y + 1 else cnt x y"]
        gridTotal_bump[OF ap(1,2), of cnt] True
      by simp
  qed
qed

lemma gridTotal_zero: "gridTotal (\<lambda>a p. 0) = 0"
  by (simp add: gridTotal_def)

lemma labelled_iff:
  fixes pr :: prediction
  shows "pr = labelled a p \<longleftrightarrow> actual pr = Some a \<and> predicted pr = Some p"
  by (cases pr) (auto simp: labelled_def)

lemma occurrences_in_vocabulary:
  assumes "a \<in> set modes" "p \<in> set modes"
  shows "occurrences preds a p =
           length (filter (\<lambda>pr. actual pr = Some a \<and> predicted pr = Some p) preds)"
proof -
  have ne: "a \<noteq> []" "p \<noteq> []" using assms by (auto simp: modes_def)
  have "(\<lambda>pr. counted pr \<and> actual pr = Some a \<and> predicted pr = Some p)
        = (\<lambda>pr. actual pr = Some a \<and> predicted pr = Some p)"
    using ne by (intro ext) (auto simp: counted_def truthy_def)
  then show ?thesis by (simp only: occurrences_def)
qed

text \<open>When every pair that has both labels present has them in the five-mode vocabulary,
  \<^verbatim>\<open>buildConfusionMatrix\<close> returns a matrix: cell \<open>(a, p)\<close> of it is the number of pairs
  with actual label \<open>a\<close> and predicted label \<open>p\<close> (each such pair adds exactly one), a pair
  with a missing or empty label adds to no cell, and the sum of all cells is the number of
  pairs with both labels present.\<close>

lemma buildConfusionMatrix_in_vocabulary:
  assumes "\<forall>pr \<in> set predictions. truthy (actual pr) \<and> truthy (predicted pr) \<longrightarrow>
             (\<exists>a \<in> set modes. \<exists>p \<in> set modes. actual pr = Some a \<and> predicted pr = Some p)"
  shows "\<exists>m. buildConfusionMatrix predictions = Returns m \<and>
           (\<forall>a \<in> set modes. \<forall>p \<in> set modes.
              cell m a p =
                Some (Num (real (length (filter (\<lambda>pr. actual pr = Some a \<and> predicted pr = Some p)
                                          predictions))))) \<and>
           cellSum m =
             Num (real (length (filter (\<lambda>pr. truthy (actual pr) \<and> truthy (predicted pr))
                                  predictions)))"
proof -
  let ?cnt = "\<lambda>a p. 0 + occurrences predictions a p"
  have h: "\<forall>pr \<in> set predictions. counted pr \<longrightarrow>
             (\<exists>a \<in> set modes. \<exists>p \<in> set modes. pr = labelled a p)"
    using assms by (simp add: counted_def labelled_iff)
  have b: "buildConfusionMatrix predictions = Returns (matrixOf ?cnt)"
    unfolding buildConfusionMatrix_def initMatrix_matrixOf
    by (rule countPredictions_matrixOf[OF h])
  have c: "\<forall>a \<in> set modes. \<forall>p \<in> set modes.
              cell (matrixOf ?cnt) a p =
                Some (Num (real (length (filter (\<lambda>pr. actual pr = Some a \<and> predicted pr = Some p)
                                          predictions))))"
    by (simp add: cell_matrixOf occurrences_in_vocabulary)
  have "(\<lambda>pr. truthy (actual pr) \<and> truthy (predicted pr)) = counted"
    by (intro ext) (simp add: counted_def)
  then have t: "cellSum (matrixOf ?cnt) =
             Num (real (length (filter (\<lambda>pr. truthy (actual pr) \<and> truthy (predicted pr))
                                  predictions)))"
    using gridTotal_occurrences[OF h, of "\<lambda>a p. 0"]
    by (simp add: cellSum_matrixOf gridTotal_zero)
  from b c t show ?thesis by blast
qed

text \<open>A pair with a missing label is skipped: it is in no cell, and the cells sum to less
  than the number of pairs.\<close>

lemma buildConfusionMatrix_missing_label:
  "buildConfusionMatrix [\<lparr> actual = Some ''walking'', predicted = None \<rparr>] = Returns initMatrix \<and>
   cellSum initMatrix = Num 0"
  by (simp add: buildConfusionMatrix_def countPrediction_def truthy_def
      initMatrix_def modes_def cellSum_def)

text \<open>An out-of-vocabulary predicted label is not ignored either: it creates a cell that
  holds \<^verbatim>\<open>NaN\<close>, and the sum of the cells is \<^verbatim>\<open>NaN\<close>.\<close>

lemma buildConfusionMatrix_unknown_predicted:
  "\<exists>m. buildConfusionMatrix [labelled ''walking'' ''plane''] = Returns m \<and>
        cell m ''walking'' ''plane'' = Some NaN \<and> cellSum m = NaN"
  by (simp add: buildConfusionMatrix_def countPrediction_def labelled_def truthy_def
      initMatrix_def modes_def cell_def cellSum_def)

text \<open>An actual label that names an inherited method reaches a built-in function, not
  \<^verbatim>\<open>undefined\<close>: nothing is thrown and the matrix is returned as it was.\<close>

lemma buildConfusionMatrix_inherited_actual:
  "buildConfusionMatrix [labelled ''constructor'' ''walking''] = Returns initMatrix"
  by (simp add: buildConfusionMatrix_def countPrediction_def labelled_def truthy_def
      initMatrix_def modes_def objectPrototypeKeys_def functionKeys_def)

lemma countPredictions_append:
  "countPredictions m (xs @ ys) =
     (case countPredictions m xs of
        Returns m' \<Rightarrow> countPredictions m' ys
      | Throws e \<Rightarrow> Throws e
      | Unmodelled \<Rightarrow> Unmodelled)"
  by (induction xs arbitrary: m) (simp_all split: outcome.splits)

lemma countPrediction_unknown_actual:
  assumes "a \<noteq> []" "p \<noteq> []" "a \<notin> set modes" "a \<notin> set objectPrototypeKeys"
  shows "countPrediction (matrixOf cnt) (labelled a p) = Throws TypeError"
proof -
  have row: "map_of (matrixOf cnt) a = None"
    unfolding matrixOf_def by (rule map_of_keyed_None[OF assms(3)])
  have "a \<noteq> ''__proto__''" using assms(4) by (auto simp: objectPrototypeKeys_def)
  then show ?thesis
    using assms(1,2,4) by (simp add: countPrediction_def labelled_def truthy_def row)
qed

text \<open>
  C1 (the divergence). \<^verbatim>\<open>buildConfusionMatrix\<close> raises a \<^verbatim>\<open>TypeError\<close> at the first pair
  whose actual label is present, is not one of the five modes and names no inherited property
  of the matrix object, whenever the pairs before it are in the vocabulary or lack a label;
  whatever follows is not counted. Such a pair is not silently ignored.
\<close>

theorem buildConfusionMatrix_unknown_actual:
  assumes "\<forall>pr \<in> set before. truthy (actual pr) \<and> truthy (predicted pr) \<longrightarrow>
             (\<exists>a \<in> set modes. \<exists>p \<in> set modes. actual pr = Some a \<and> predicted pr = Some p)"
      and "a \<noteq> []" "p \<noteq> []" "a \<notin> set modes" "a \<notin> set objectPrototypeKeys"
  shows "buildConfusionMatrix (before @ labelled a p # rest) = Throws TypeError"
proof -
  have h: "\<forall>pr \<in> set before. counted pr \<longrightarrow>
             (\<exists>a \<in> set modes. \<exists>p \<in> set modes. pr = labelled a p)"
    using assms(1) by (simp add: counted_def labelled_iff)
  show ?thesis
    unfolding buildConfusionMatrix_def initMatrix_matrixOf countPredictions_append
      countPredictions_matrixOf[OF h]
    by (simp add: countPrediction_unknown_actual[OF assms(2-5)])
qed

theorem buildConfusionMatrix_unknown_actual_witness:
  "buildConfusionMatrix [labelled ''walking'' ''walking'', labelled ''plane'' ''walking'',
                         labelled ''car'' ''car''] = Throws TypeError \<and>
   buildConfusionMatrix [labelled ''plane'' ''walking''] = Throws TypeError"
proof
  have h: "\<forall>pr \<in> set [labelled ''walking'' ''walking''].
             truthy (actual pr) \<and> truthy (predicted pr) \<longrightarrow>
             (\<exists>a \<in> set modes. \<exists>p \<in> set modes. actual pr = Some a \<and> predicted pr = Some p)"
    by (simp add: labelled_def modes_def)
  have n: "''plane'' \<noteq> []" "''walking'' \<noteq> []" "''plane'' \<notin> set modes"
          "''plane'' \<notin> set objectPrototypeKeys"
    by (simp_all add: modes_def objectPrototypeKeys_def)
  from buildConfusionMatrix_unknown_actual[OF h n, of "[labelled ''car'' ''car'']"]
  show "buildConfusionMatrix [labelled ''walking'' ''walking'', labelled ''plane'' ''walking'',
                         labelled ''car'' ''car''] = Throws TypeError" by simp
next
  have h: "\<forall>pr \<in> set [].
             truthy (actual pr) \<and> truthy (predicted pr) \<longrightarrow>
             (\<exists>a \<in> set modes. \<exists>p \<in> set modes. actual pr = Some a \<and> predicted pr = Some p)"
    by simp
  have n: "''plane'' \<noteq> []" "''walking'' \<noteq> []" "''plane'' \<notin> set modes"
          "''plane'' \<notin> set objectPrototypeKeys"
    by (simp_all add: modes_def objectPrototypeKeys_def)
  from buildConfusionMatrix_unknown_actual[OF h n, of "[]"]
  show "buildConfusionMatrix [labelled ''plane'' ''walking''] = Throws TypeError" by simp
qed

end
